theory Spec2Isabelle
  imports Complex_Main "HOL-Library.Word"
begin

unbundle bit_operations_syntax

section \<open>Data model of tools/tcp\_gen.py\<close>

text \<open>
  A Python \<open>bytes\<close> value is a list of 8-bit words, a Python \<open>int\<close> is an \<open>int\<close>.
  An exception is a value of type \<open>exn\<close>; a function that may raise returns
  \<open>exn + 'a\<close>, with \<open>Inl\<close> for the exception.
\<close>

type_synonym byte = "8 word"
type_synonym bytes = "byte list"

datatype exn =
    ValueError string
  | RuntimeError string
  | StructError string
  | OSError string
  | StopIteration

subsection \<open>The struct module\<close>

text \<open>
  \<open>struct.pack("BB", a, b)\<close>: two unsigned bytes; struct.error when an argument does not
  fit a byte.
\<close>

definition pack_BB :: "int \<Rightarrow> int \<Rightarrow> exn + bytes" where
  "pack_BB a b =
     (if 0 \<le> a \<and> a \<le> 255 \<and> 0 \<le> b \<and> b \<le> 255
      then Inr [word_of_int a, word_of_int b]
      else Inl (StructError ''ubyte format requires 0 <= number <= 255''))"

text \<open>
  \<open>struct.pack(">I", v)\<close>: the four bytes of an unsigned 32-bit value, most significant
  byte first; struct.error when \<open>v\<close> is out of range.
\<close>

definition pack_be_I :: "int \<Rightarrow> exn + bytes" where
  "pack_be_I v =
     (if 0 \<le> v \<and> v \<le> 4294967295
      then Inr [word_of_int (drop_bit 24 v), word_of_int (drop_bit 16 v),
                word_of_int (drop_bit 8 v), word_of_int v]
      else Inl (StructError ''argument out of range''))"

subsection \<open>The random module\<close>

text \<open>
  A \<open>random.Random\<close> object is a stream of raw draws and a position in it. The Mersenne
  Twister itself is not part of the repository: the stream is a parameter, and every
  theorem below holds for every stream. \<open>randrange(a, b)\<close> and \<open>randint(a, b)\<close> map one
  raw draw into their range and raise ValueError on an empty range, as the library does.
\<close>

record rng =
  raw :: "nat \<Rightarrow> nat"
  pos :: nat

definition randrange :: "int \<Rightarrow> int \<Rightarrow> rng \<Rightarrow> (exn + int) \<times> rng" where
  "randrange a b r =
     (if b \<le> a then (Inl (ValueError ''empty range for randrange()''), r)
      else (Inr (a + int (raw r (pos r)) mod (b - a)), r\<lparr>pos := Suc (pos r)\<rparr>))"

definition randint :: "int \<Rightarrow> int \<Rightarrow> rng \<Rightarrow> (exn + int) \<times> rng" where
  "randint a b r = randrange a (b + 1) r"

subsection \<open>Configuration and counters\<close>

record GenConfig =
  host :: string
  port :: int
  duration_s :: real
  rate_mps :: real
  seed :: int
  tcp_nodelay :: bool
  recv_replies :: bool
  reply_timeout_s :: real
  log_csv :: "string option"
  msg_type :: int
  payload_len :: int
  burst :: bool
  burst_msgs :: int
  burst_idle_ms :: int
  fragment :: bool
  fragment_max_chunk :: int
  coalesce :: bool

record MsgStats =
  sent :: nat
  send_bytes :: nat
  send_fail :: nat
  replies :: nat
  recv_bytes :: nat
  t0 :: real
  t_last_report :: real

section \<open>Framing helpers\<close>

text \<open>\<open>build_message\<close>, lines 76-87: the two range checks, then LEN, TYPE and the payload.\<close>

definition build_message :: "int \<Rightarrow> bytes \<Rightarrow> exn + bytes" where
  "build_message mt payload =
     (if \<not> (0 \<le> mt \<and> mt \<le> 255) then Inl (ValueError ''msg_type must fit in 1 byte'')
      else if length payload > 254
        then Inl (ValueError ''payload too large for 1-byte LEN framing'')
      else (case pack_BB (1 + int (length payload)) mt of
              Inl e \<Rightarrow> Inl e
            | Inr hdr \<Rightarrow> Inr (hdr @ payload)))"

text \<open>
  The loop of lines 105-106: \<open>k\<close> bytes, each one \<open>rng.randrange(0, 256)\<close>, in order.
\<close>

fun fill_random :: "nat \<Rightarrow> rng \<Rightarrow> (exn + bytes) \<times> rng" where
  "fill_random 0 r = (Inr [], r)"
| "fill_random (Suc k) r =
     (case randrange 0 256 r of
        (Inl e, r') \<Rightarrow> (Inl e, r')
      | (Inr v, r') \<Rightarrow>
          (case fill_random k r' of
             (Inl e, r'') \<Rightarrow> (Inl e, r'')
           | (Inr bs, r'') \<Rightarrow> (Inr (word_of_int v # bs), r'')))"

text \<open>
  \<open>make_payload\<close>, lines 90-112. \<open>bytearray(n)\<close> raises ValueError for a negative \<open>n\<close>.
  For \<open>n \<ge> 4\<close> the first four bytes are the packed sequence number and the rest is
  random; for \<open>0 < n < 4\<close> the result is the slice \<open>tmp[0:n]\<close> of the packed sequence
  number.
\<close>

definition make_payload :: "GenConfig \<Rightarrow> int \<Rightarrow> rng \<Rightarrow> (exn + bytes) \<times> rng" where
  "make_payload cfg seq r =
     (let n = payload_len cfg in
      if n = 0 then (Inr [], r)
      else if n < 0 then (Inl (ValueError ''negative count''), r)
      else if n \<ge> 4 then
        (case pack_be_I (seq AND 4294967295) of
           Inl e \<Rightarrow> (Inl e, r)
         | Inr hd4 \<Rightarrow>
             (case fill_random (nat (n - 4)) r of
                (Inl e, r') \<Rightarrow> (Inl e, r')
              | (Inr rest, r') \<Rightarrow> (Inr (hd4 @ rest), r')))
      else
        (case pack_be_I (seq AND 4294967295) of
           Inl e \<Rightarrow> (Inl e, r)
         | Inr tmp \<Rightarrow> (Inr (take (nat n) tmp), r)))"

text \<open>
  The receiver's rule, from the module docstring (lines 5-10): LEN is one byte and counts
  TYPE and PAYLOAD, so the payload has LEN - 1 bytes. \<open>decode_frame\<close> reads one frame off
  the front of a byte stream and returns the type, the payload and the rest of the stream.
\<close>

definition decode_frame :: "bytes \<Rightarrow> (byte \<times> bytes \<times> bytes) option" where
  "decode_frame bs =
     (case bs of
        [] \<Rightarrow> None
      | len # r1 \<Rightarrow>
          (case r1 of
             [] \<Rightarrow> None
           | ty # r2 \<Rightarrow>
               (if unat len = 0 \<or> length r2 < unat len - 1 then None
                else Some (ty, take (unat len - 1) r2, drop (unat len - 1) r2))))"

section \<open>Socket send utilities\<close>

text \<open>
  The transport is outside the repository. A socket is modelled by what the program can
  see of it: \<open>on_send\<close> scripts the reply to the i-th \<open>sock.send\<close> call (a return value,
  or an OSError), \<open>on_recv\<close> the reply to the i-th \<open>sock.recv\<close> call, \<open>connect_fails\<close> the
  outcome of \<open>sock.connect\<close>, and \<open>wire\<close> collects the bytes the transport accepted.
  Every theorem below holds for every script.
\<close>

datatype send_reply = Sent int | SendFails

datatype recv_reply = Data bytes | RecvTimeout | RecvFails

record sock =
  connect_fails :: bool
  on_send :: "nat \<Rightarrow> send_reply"
  n_send :: nat
  wire :: bytes
  on_recv :: "nat \<Rightarrow> recv_reply"
  n_recv :: nat

definition sock_send :: "sock \<Rightarrow> bytes \<Rightarrow> (exn + int) \<times> sock" where
  "sock_send s view =
     (case on_send s (n_send s) of
        SendFails \<Rightarrow> (Inl (OSError ''send''), s\<lparr>n_send := Suc (n_send s)\<rparr>)
      | Sent n \<Rightarrow>
          (Inr n, s\<lparr>n_send := Suc (n_send s), wire := wire s @ take (nat n) view\<rparr>))"

definition sock_recv :: "sock \<Rightarrow> recv_reply \<times> sock" where
  "sock_recv s = (on_recv s (n_recv s), s\<lparr>n_recv := Suc (n_recv s)\<rparr>)"

text \<open>
  \<open>send_all\<close>, lines 119-127: the while loop from a given value \<open>tot\<close> of \<open>total\<close>. It ends
  because every pass that does not raise adds at least one to \<open>total\<close>.
\<close>

function send_all_from :: "sock \<Rightarrow> bytes \<Rightarrow> nat \<Rightarrow> (exn + unit) \<times> sock" where
  "send_all_from s data tot =
     (if tot < length data then
        (case sock_send s (drop tot data) of
           (Inl e, s') \<Rightarrow> (Inl e, s')
         | (Inr n, s') \<Rightarrow>
             (if n \<le> 0 then (Inl (RuntimeError ''socket.send returned <= 0''), s')
              else send_all_from s' data (tot + nat n)))
      else (Inr (), s))"
  by pat_completeness auto
termination
  by (relation "measure (\<lambda>(s, data, tot). length data - tot)") auto

definition send_all :: "sock \<Rightarrow> bytes \<Rightarrow> (exn + unit) \<times> sock" where
  "send_all s data = send_all_from s data 0"

text \<open>
  \<open>send_fragmented\<close>, lines 130-142: the while loop from offset \<open>i\<close>, then the function
  with its guard. The last component of the result lists the slices handed to
  \<open>send_all\<close>, in the order of the calls: the chunks emitted.
\<close>

function send_fragmented_from ::
  "sock \<Rightarrow> bytes \<Rightarrow> rng \<Rightarrow> int \<Rightarrow> nat \<Rightarrow> (exn + unit) \<times> sock \<times> rng \<times> bytes list" where
  "send_fragmented_from s data r max_chunk i =
     (if i < length data then
        (case randint 1 (min max_chunk (int (length data) - int i)) r of
           (Inl e, r') \<Rightarrow> (Inl e, s, r', [])
         | (Inr chunk_len, r') \<Rightarrow>
             (case send_all s (take (nat chunk_len) (drop i data)) of
                (Inl e, s') \<Rightarrow> (Inl e, s', r', [take (nat chunk_len) (drop i data)])
              | (Inr u, s') \<Rightarrow>
                  (case send_fragmented_from s' data r' max_chunk (i + nat chunk_len) of
                     (res, s'', r'', cs) \<Rightarrow>
                       (res, s'', r'', take (nat chunk_len) (drop i data) # cs))))
      else (Inr (), s, r, []))"
  by pat_completeness auto
termination
proof (relation "measure (\<lambda>(s, data, r, max_chunk, i). length data - i)", goal_cases)
  case 1
  show ?case by simp
next
  case (2 s data r max_chunk i x r' chunk_len y s')
  note rand = 2(2) 2(3)
  let ?m = "min max_chunk (int (length data) - int i)"
  from rand have "0 < ?m" and "chunk_len = 1 + int (raw r (pos r)) mod ?m"
    by (auto simp: randint_def randrange_def not_le split: if_splits)
  then have "1 \<le> chunk_len"
    using pos_mod_sign [of ?m "int (raw r (pos r))"] by linarith
  with 2(1) show ?case
    by simp
qed

definition send_fragmented ::
  "sock \<Rightarrow> bytes \<Rightarrow> rng \<Rightarrow> int \<Rightarrow> (exn + unit) \<times> sock \<times> rng \<times> bytes list" where
  "send_fragmented s data r max_chunk =
     (if max_chunk \<le> 0 then (Inl (ValueError ''max_chunk must be > 0''), s, r, [])
      else send_fragmented_from s data r max_chunk 0)"

text \<open>
  The two exceptions a write can end with: the OSError of \<open>sock.send\<close> and the
  RuntimeError of line 126. A socket is reliable when every \<open>send\<close> returns at least 1.
\<close>

definition transport_error :: "exn \<Rightarrow> bool" where
  "transport_error e \<longleftrightarrow> e = OSError ''send'' \<or> e = RuntimeError ''socket.send returned <= 0''"

definition reliable :: "sock \<Rightarrow> bool" where
  "reliable s \<longleftrightarrow> (\<forall>i. \<exists>n. on_send s i = Sent n \<and> 1 \<le> n)"

section \<open>Generator loop\<close>

text \<open>
  A Python \<open>float\<close> is idealised as a \<open>real\<close>. Time is read from a clock that the
  program does not control: \<open>clock w k\<close> is the value of the k-th call of
  \<open>time.perf_counter()\<close>, and \<open>ticks\<close> counts the calls made. No theorem below
  depends on what the clock returns.

  One record holds everything a run can read or change: the clock, the source of
  pseudo-random streams (\<open>prng s\<close> is the stream of \<open>random.Random(s)\<close>), the outcome of
  opening the log file, the socket, the counters, the rows written to the CSV log
  (\<open>None\<close> when there is no log), and the locals of \<open>run\<close>: the two generators, the
  fragmentation stream and the sequence counter. \<open>attempts\<close> is a history variable
  that no function reads: the \<open>(seq, msg)\<close> arguments of the calls of \<open>_send_one\<close>,
  in order.
\<close>

datatype csv_row = Header | Row nat real nat string

text \<open>
  The generator object of \<open>message_stream\<close>: not started, suspended at its \<open>yield\<close> with
  the locals \<open>rng\<close> and \<open>seq\<close>, or finished by an exception.
\<close>

datatype msg_gen = Fresh | Yielded rng nat | Dead

text \<open>
  The generator object of \<open>rate_controller_next_deadline\<close>: not started, in the loop of
  the unthrottled branch, or suspended in the paced loop with the locals \<open>period\<close>
  and \<open>t\<close>.
\<close>

datatype pacer = Unstarted | Unthrottled | Paced real real

record world =
  clock :: "nat \<Rightarrow> real"
  ticks :: nat
  prng :: "int \<Rightarrow> nat \<Rightarrow> nat"
  open_fails :: bool
  net :: sock
  stats :: MsgStats
  csv :: "csv_row list option"
  gen :: msg_gen
  deadlines :: pacer
  frag_rng :: rng
  run_seq :: nat
  attempts :: "(nat \<times> bytes) list"

definition perf_counter :: "world \<Rightarrow> real \<times> world" where
  "perf_counter w = (clock w (ticks w), w\<lparr>ticks := Suc (ticks w)\<rparr>)"

definition Random :: "world \<Rightarrow> int \<Rightarrow> rng" where
  "Random w s = \<lparr>raw = prng w s, pos = 0\<rparr>"

text \<open>\<open>time.sleep(x)\<close> raises ValueError for a negative length and changes nothing else.\<close>

definition sleep :: "real \<Rightarrow> exn + unit" where
  "sleep x = (if x < 0 then Inl (ValueError ''sleep length must be non-negative'') else Inr ())"

text \<open>
  The body of the loop of \<open>message_stream\<close>, lines 162-164, run up to the \<open>yield\<close> with
  the locals \<open>r\<close> and \<open>seq\<close>.
\<close>

definition message_stream_body :: "GenConfig \<Rightarrow> rng \<Rightarrow> nat \<Rightarrow> (exn + bytes) \<times> msg_gen" where
  "message_stream_body cfg r seq =
     (case make_payload cfg (int seq) r of
        (Inl e, r') \<Rightarrow> (Inl e, Dead)
      | (Inr payload, r') \<Rightarrow>
          (case build_message (msg_type cfg) payload of
             Inl e \<Rightarrow> (Inl e, Dead)
           | Inr msg \<Rightarrow> (Inr msg, Yielded r' seq)))"

text \<open>
  \<open>next(gen)\<close> on the generator of \<open>message_stream\<close>, lines 154-165: the first call runs
  lines 158-159, a later call resumes after the \<open>yield\<close> with \<open>seq += 1\<close>.
\<close>

definition message_stream :: "GenConfig \<Rightarrow> world \<Rightarrow> (exn + bytes) \<times> world" where
  "message_stream cfg w =
     (case gen w of
        Fresh \<Rightarrow>
          (case message_stream_body cfg (Random w (seed cfg)) 0 of
             (res, g) \<Rightarrow> (res, w\<lparr>gen := g\<rparr>))
      | Yielded r seq \<Rightarrow>
          (case message_stream_body cfg r (Suc seq) of
             (res, g) \<Rightarrow> (res, w\<lparr>gen := g\<rparr>))
      | Dead \<Rightarrow> (Inl StopIteration, w))"

text \<open>
  \<open>next(deadlines)\<close> on the generator of \<open>rate_controller_next_deadline\<close>,
  lines 168-181.
\<close>

definition rate_controller_next_deadline :: "real \<Rightarrow> world \<Rightarrow> real \<times> world" where
  "rate_controller_next_deadline rate w =
     (case deadlines w of
        Unstarted \<Rightarrow>
          (if rate \<le> 0 then (0, w\<lparr>deadlines := Unthrottled\<rparr>)
           else
             (let period = 1 / rate in
              case perf_counter w of
                (t, w1) \<Rightarrow> (t + period, w1\<lparr>deadlines := Paced period (t + period)\<rparr>)))
      | Unthrottled \<Rightarrow> (0, w)
      | Paced period t \<Rightarrow> (t + period, w\<lparr>deadlines := Paced period (t + period)\<rparr>))"

text \<open>\<open>maybe_sleep_until\<close>, lines 184-191.\<close>

definition maybe_sleep_until :: "real \<Rightarrow> world \<Rightarrow> world" where
  "maybe_sleep_until deadline w =
     (if deadline \<le> 0 then w
      else (case perf_counter w of (now, w1) \<Rightarrow> w1))"

text \<open>
  \<open>_send_one\<close>, lines 273-304. \<open>write_msg\<close> is the write of lines 289-292, fragmented
  or whole. The \<open>try\<close> block is the write, the two counters and the "ok" row; the
  \<open>except\<close> block counts the failure, writes the "send\_fail" row and raises again.
  The timestamp of a row is kept as the number \<open>t_send\<close>.
\<close>

definition write_msg ::
  "GenConfig \<Rightarrow> sock \<Rightarrow> rng \<Rightarrow> bytes \<Rightarrow> (exn + unit) \<times> sock \<times> rng" where
  "write_msg cfg s r msg =
     (if fragment cfg
      then (case send_fragmented s msg r (fragment_max_chunk cfg) of
              (res, s', r', cs) \<Rightarrow> (res, s', r'))
      else (case send_all s msg of (res, s') \<Rightarrow> (res, s', r)))"

definition send_one :: "GenConfig \<Rightarrow> world \<Rightarrow> bytes \<Rightarrow> nat \<Rightarrow> (exn + unit) \<times> world" where
  "send_one cfg w0 msg seq =
     (case perf_counter (w0\<lparr>attempts := attempts w0 @ [(seq, msg)]\<rparr>) of
        (t_send, w) \<Rightarrow>
          (case write_msg cfg (net w) (frag_rng w) msg of
             (Inr u, s', r') \<Rightarrow>
               (Inr (),
                w\<lparr>net := s', frag_rng := r',
                  stats := (stats w)\<lparr>sent := sent (stats w) + 1,
                                      send_bytes := send_bytes (stats w) + length msg\<rparr>,
                  csv := map_option (\<lambda>rows. rows @ [Row seq t_send (length msg) ''ok''])
                           (csv w)\<rparr>)
           | (Inl e, s', r') \<Rightarrow>
               (Inl e,
                w\<lparr>net := s', frag_rng := r',
                  stats := (stats w)\<lparr>send_fail := send_fail (stats w) + 1\<rparr>,
                  csv := map_option (\<lambda>rows. rows @ [Row seq t_send 0 ''send_fail''])
                           (csv w)\<rparr>)))"

text \<open>
  \<open>_maybe_report\<close> and \<open>_final_report\<close>, lines 307-331: each reads the clock; the
  printed text is not modelled.
\<close>

definition maybe_report :: "world \<Rightarrow> world" where
  "maybe_report w =
     (case perf_counter w of
        (now, w1) \<Rightarrow>
          (if now - t_last_report (stats w1) \<ge> 1
           then w1\<lparr>stats := (stats w1)\<lparr>t_last_report := now\<rparr>\<rparr>
           else w1))"

definition final_report :: "world \<Rightarrow> world" where
  "final_report w = snd (perf_counter w)"

text \<open>
  \<open>end_time\<close> is \<open>None\<close> for \<open>float("inf")\<close>; \<open>before now end_time\<close> is the test
  \<open>now < end_time\<close>.
\<close>

definition before :: "real \<Rightarrow> real option \<Rightarrow> bool" where
  "before now end_time = (case end_time of None \<Rightarrow> True | Some e \<Rightarrow> now < e)"

text \<open>How a piece of the loop ends: it goes on, it leaves the loop, or it raises.\<close>

datatype flow = Continue world | Break world | Raised exn world

text \<open>The \<open>for\<close> loop of burst mode, lines 226-230, with \<open>k\<close> passes left.\<close>

fun burst_loop :: "GenConfig \<Rightarrow> real option \<Rightarrow> nat \<Rightarrow> world \<Rightarrow> (exn + unit) \<times> world" where
  "burst_loop cfg end_time 0 w = (Inr (), w)"
| "burst_loop cfg end_time (Suc k) w =
     (case perf_counter w of
        (now, w1) \<Rightarrow>
          (if \<not> before now end_time then (Inr (), w1)
           else
             (case message_stream cfg w1 of
                (Inl e, w2) \<Rightarrow> (Inl e, w2)
              | (Inr msg, w2) \<Rightarrow>
                  (case send_one cfg w2 msg (run_seq w2) of
                     (Inl e, w3) \<Rightarrow> (Inl e, w3)
                   | (Inr u, w3) \<Rightarrow>
                       burst_loop cfg end_time k (w3\<lparr>run_seq := Suc (run_seq w3)\<rparr>)))))"

text \<open>The reply placeholder of normal mode, lines 241-253.\<close>

definition recv_reply :: "world \<Rightarrow> flow" where
  "recv_reply w =
     (case sock_recv (net w) of
        (RecvFails, s') \<Rightarrow> Raised (OSError ''recv'') (w\<lparr>net := s'\<rparr>)
      | (RecvTimeout, s') \<Rightarrow> Continue (w\<lparr>net := s'\<rparr>)
      | (Data d, s') \<Rightarrow>
          (if d \<noteq> []
           then Continue (w\<lparr>net := s',
                   stats := (stats w)\<lparr>replies := replies (stats w) + 1,
                                       recv_bytes := recv_bytes (stats w) + length d\<rparr>\<rparr>)
           else Break (w\<lparr>net := s'\<rparr>)))"

text \<open>One pass of the body of the while loop of \<open>run\<close>, lines 224-255.\<close>

definition iteration :: "GenConfig \<Rightarrow> real option \<Rightarrow> world \<Rightarrow> flow" where
  "iteration cfg end_time w =
     (if burst cfg then
        (case burst_loop cfg end_time (nat (burst_msgs cfg)) w of
           (Inl e, w1) \<Rightarrow> Raised e w1
         | (Inr u, w1) \<Rightarrow>
             (case sleep (real_of_int (burst_idle_ms cfg) / 1000) of
                Inl e \<Rightarrow> Raised e w1
              | Inr u \<Rightarrow> Continue w1))
      else
        (case rate_controller_next_deadline (rate_mps cfg) w of
           (deadline, w1) \<Rightarrow>
             (case message_stream cfg (maybe_sleep_until deadline w1) of
                (Inl e, w2) \<Rightarrow> Raised e w2
              | (Inr msg, w2) \<Rightarrow>
                  (case send_one cfg w2 msg (run_seq w2) of
                     (Inl e, w3) \<Rightarrow> Raised e w3
                   | (Inr u, w3) \<Rightarrow>
                       (if recv_replies cfg then
                          (case recv_reply (w3\<lparr>run_seq := Suc (run_seq w3)\<rparr>) of
                             Continue w4 \<Rightarrow> Continue (maybe_report w4)
                           | Break w4 \<Rightarrow> Break w4
                           | Raised e w4 \<Rightarrow> Raised e w4)
                        else Continue (maybe_report (w3\<lparr>run_seq := Suc (run_seq w3)\<rparr>)))))))"

text \<open>
  The while loop of \<open>run\<close>, lines 223-255. It may run forever (a duration of 0 with a peer
  that never closes), so it takes fuel, one unit for each test of the loop condition:
  \<open>Continue w\<close> is the loop still running in \<open>w\<close> when the fuel is used up.
\<close>

fun run_loop :: "nat \<Rightarrow> GenConfig \<Rightarrow> real option \<Rightarrow> world \<Rightarrow> flow" where
  "run_loop 0 cfg end_time w = Continue w"
| "run_loop (Suc fuel) cfg end_time w =
     (case perf_counter w of
        (now, w1) \<Rightarrow>
          (if before now end_time then
             (case iteration cfg end_time w1 of
                Continue w2 \<Rightarrow> run_loop fuel cfg end_time w2
              | Break w2 \<Rightarrow> Break w2
              | Raised e w2 \<Rightarrow> Raised e w2)
           else Break w1))"

text \<open>
  What a call returns: an exit code, an exception that nothing caught, or nothing yet
  (\<open>Running\<close>: the fuel is used up and the loop goes on).
\<close>

datatype outcome = Exit int | Uncaught exn | Running

text \<open>
  The state at line 222, before the loop: the counters and the two time stamps, the log
  with its header row when a log is asked for (\<open>cfg.log_csv\<close> is neither \<open>None\<close> nor
  empty), the two generators created but not started, the fragmentation stream and
  \<open>seq = 0\<close>.
\<close>

definition run_init :: "GenConfig \<Rightarrow> world \<Rightarrow> world" where
  "run_init cfg w =
     (case perf_counter w of
        (t, w1) \<Rightarrow>
          w1\<lparr>stats := \<lparr>sent = 0, send_bytes = 0, send_fail = 0, replies = 0, recv_bytes = 0,
                        t0 = t, t_last_report = t\<rparr>,
             csv := (case log_csv cfg of
                       None \<Rightarrow> None
                     | Some path \<Rightarrow> if path = [] then None else Some [Header]),
             gen := Fresh,
             deadlines := Unstarted,
             frag_rng := Random w (seed cfg XOR 2779096485),
             run_seq := 0,
             attempts := []\<rparr>)"

definition end_time_of :: "GenConfig \<Rightarrow> world \<Rightarrow> real option" where
  "end_time_of cfg w =
     (if duration_s cfg > 0 then Some (t0 (stats w) + duration_s cfg) else None)"

text \<open>
  \<open>run\<close>, lines 194-270. Opening the log is outside the \<open>try\<close>, so its failure is not
  caught. Inside the \<open>try\<close>: the connection (\<open>sock.connect\<close> may fail; \<open>settimeout\<close>
  raises ValueError for a negative timeout), then the loop. A raise anywhere in the
  \<open>try\<close> gives the exit code 1, the end of the loop gives the final report and 0.
  Closing the socket and the log in the \<open>finally\<close> block changes nothing modelled here.
\<close>

definition run :: "nat \<Rightarrow> GenConfig \<Rightarrow> world \<Rightarrow> outcome \<times> world" where
  "run fuel cfg w =
     (let w1 = run_init cfg w in
      if csv w1 \<noteq> None \<and> open_fails w1
      then (Uncaught (OSError ''open''), w1\<lparr>csv := None\<rparr>)
      else if connect_fails (net w1) then (Exit 1, w1)
      else if recv_replies cfg \<and> reply_timeout_s cfg < 0 then (Exit 1, w1)
      else
        (case run_loop fuel cfg (end_time_of cfg w1) w1 of
           Continue w2 \<Rightarrow> (Running, w2)
         | Break w2 \<Rightarrow> (Exit 0, final_report w2)
         | Raised e w2 \<Rightarrow> (Exit 1, w2)))"

section \<open>Command line\<close>

text \<open>
  \<open>parse_args\<close>, lines 338-384, from the namespace that \<open>argparse\<close> returns (line 362):
  the text of the arguments is parsed by the library, and a numeric option can hold any
  integer. Lines 364-384 build the configuration.
\<close>

record Namespace =
  a_host :: string
  a_port :: int
  a_duration :: real
  a_rate :: real
  a_seed :: int
  a_nodelay :: bool
  a_msg_type :: int
  a_payload_len :: int
  a_burst :: bool
  a_burst_msgs :: int
  a_burst_idle_ms :: int
  a_fragment :: bool
  a_fragment_max_chunk :: int
  a_recv_replies :: bool
  a_reply_timeout :: real
  a_log_csv :: "string option"

definition parse_args :: "Namespace \<Rightarrow> GenConfig" where
  "parse_args a =
     \<lparr>host = a_host a,
      port = a_port a,
      duration_s = a_duration a,
      rate_mps = a_rate a,
      seed = a_seed a,
      tcp_nodelay = a_nodelay a,
      recv_replies = a_recv_replies a,
      reply_timeout_s = a_reply_timeout a,
      log_csv = a_log_csv a,
      msg_type = a_msg_type a AND 255,
      payload_len = a_payload_len a,
      burst = a_burst a,
      burst_msgs = a_burst_msgs a,
      burst_idle_ms = a_burst_idle_ms a,
      fragment = a_fragment a,
      fragment_max_chunk = a_fragment_max_chunk a,
      coalesce = False\<rparr>"

text \<open>\<open>main\<close>, lines 387-392.\<close>

definition main :: "nat \<Rightarrow> Namespace \<Rightarrow> world \<Rightarrow> outcome \<times> world" where
  "main fuel a w =
     (let cfg = parse_args a in
      if payload_len cfg < 0 \<or> payload_len cfg > 254 then (Exit 2, w)
      else run fuel cfg w)"

section \<open>Invariants of a run\<close>

text \<open>
  What it means for a message to carry a sequence number: the payload starts with the
  first bytes of the four-byte big-endian encoding of the number modulo \<open>2^32\<close>, as many
  as the payload length allows. \<open>framed cfg k msg\<close>: \<open>msg\<close> is the frame that
  \<open>build_message\<close> makes of a payload that \<open>make_payload\<close> makes for the sequence number
  \<open>k\<close>.
\<close>

definition embeds_seq :: "int \<Rightarrow> int \<Rightarrow> bytes \<Rightarrow> bool" where
  "embeds_seq n k p \<longleftrightarrow>
     (\<exists>b0 b1 b2 b3.
        uint b0 * 16777216 + uint b1 * 65536 + uint b2 * 256 + uint b3 = k mod 4294967296
        \<and> take 4 p = take (nat n) [b0, b1, b2, b3])"

definition framed :: "GenConfig \<Rightarrow> nat \<Rightarrow> bytes \<Rightarrow> bool" where
  "framed cfg k msg \<longleftrightarrow>
     (\<exists>r r' p. make_payload cfg (int k) r = (Inr p, r')
        \<and> build_message (msg_type cfg) p = Inr msg
        \<and> drop 2 msg = p
        \<and> embeds_seq (payload_len cfg) (int k) p)"

text \<open>
  The rows of the log. An attempt \<open>(seq, msg)\<close> that succeeded has the row
  \<open>seq, t, len(msg), "ok"\<close>, one that failed has the row \<open>seq, t, 0, "send_fail"\<close>.
  \<open>log_shape atts n rows\<close>: the log, when there is one, is the header, then an "ok" row
  for each of the first \<open>n\<close> attempts, then a "send\_fail" row for each of the others.
  \<open>wants_log\<close> is the test of line 202.
\<close>

definition ok_row :: "nat \<times> bytes \<Rightarrow> csv_row \<Rightarrow> bool" where
  "ok_row a row \<longleftrightarrow> (\<exists>t. row = Row (fst a) t (length (snd a)) ''ok'')"

definition fail_row :: "nat \<times> bytes \<Rightarrow> csv_row \<Rightarrow> bool" where
  "fail_row a row \<longleftrightarrow> (\<exists>t. row = Row (fst a) t 0 ''send_fail'')"

definition log_shape :: "(nat \<times> bytes) list \<Rightarrow> nat \<Rightarrow> csv_row list option \<Rightarrow> bool" where
  "log_shape atts n rows_opt \<longleftrightarrow>
     (case rows_opt of
        None \<Rightarrow> True
      | Some rows \<Rightarrow>
          (\<exists>oks fails. rows = Header # oks @ fails
             \<and> list_all2 ok_row (take n atts) oks
             \<and> list_all2 fail_row (drop n atts) fails))"

definition wants_log :: "GenConfig \<Rightarrow> bool" where
  "wants_log cfg \<longleftrightarrow> log_csv cfg \<noteq> None \<and> log_csv cfg \<noteq> Some []"

text \<open>
  \<open>good\<close> holds of every state a run reaches: at most one failure is counted, every
  attempt is counted as sent or as failed, the attempts carry the sequence numbers
  0, 1, 2, ... in order, the byte counter is the total length of the messages sent, the
  log has the shape above, and every message attempted is framed for its own sequence
  number. \<open>at_head\<close> holds at the head of the loop: moreover nothing has failed, the
  counter \<open>seq\<close> of \<open>run\<close> is the number of messages sent, and the generator of
  \<open>message_stream\<close> will use that number next. \<open>ready\<close> holds between \<open>next(gen)\<close>
  and \<open>_send_one\<close>. \<open>core\<close> lists the fields these predicates read.
\<close>

definition good :: "GenConfig \<Rightarrow> world \<Rightarrow> bool" where
  "good cfg w \<longleftrightarrow>
     send_fail (stats w) \<le> 1
     \<and> (csv w = None) = (\<not> wants_log cfg)
     \<and> length (attempts w) = sent (stats w) + send_fail (stats w)
     \<and> map fst (attempts w) = [0..<length (attempts w)]
     \<and> send_bytes (stats w)
         = sum_list (map (\<lambda>a. length (snd a)) (take (sent (stats w)) (attempts w)))
     \<and> log_shape (attempts w) (sent (stats w)) (csv w)
     \<and> list_all (\<lambda>a. framed cfg (fst a) (snd a)) (attempts w)"

definition at_head :: "GenConfig \<Rightarrow> world \<Rightarrow> bool" where
  "at_head cfg w \<longleftrightarrow>
     good cfg w \<and> send_fail (stats w) = 0 \<and> run_seq w = sent (stats w)
     \<and> (case gen w of Fresh \<Rightarrow> run_seq w = 0 | Yielded r s \<Rightarrow> run_seq w = Suc s | Dead \<Rightarrow> False)"

definition ready :: "GenConfig \<Rightarrow> world \<Rightarrow> bool" where
  "ready cfg w \<longleftrightarrow>
     good cfg w \<and> send_fail (stats w) = 0 \<and> run_seq w = sent (stats w)
     \<and> (\<exists>r. gen w = Yielded r (run_seq w))"

definition core ::
  "world \<Rightarrow> (nat \<times> bytes) list \<times> nat \<times> nat \<times> nat \<times> csv_row list option \<times> msg_gen \<times> nat" where
  "core w = (attempts w, sent (stats w), send_bytes (stats w), send_fail (stats w), csv w,
             gen w, run_seq w)"

definition flow_inv :: "GenConfig \<Rightarrow> flow \<Rightarrow> bool" where
  "flow_inv cfg f \<longleftrightarrow>
     (case f of Continue w \<Rightarrow> at_head cfg w | Break w \<Rightarrow> at_head cfg w
      | Raised e w \<Rightarrow> good cfg w)"

section \<open>A concrete scenario\<close>

text \<open>
  The command line of the scenario: the defaults of \<open>parse_args\<close> with a payload of
  three bytes and a log, and the same with the message type 0x144.
\<close>

definition scenario_args :: Namespace where
  "scenario_args =
     \<lparr>a_host = ''board'', a_port = 9000, a_duration = 10, a_rate = 0, a_seed = 1,
      a_nodelay = False, a_msg_type = 68, a_payload_len = 3, a_burst = False,
      a_burst_msgs = 100, a_burst_idle_ms = 100, a_fragment = False,
      a_fragment_max_chunk = 8, a_recv_replies = False, a_reply_timeout = 1 / 100,
      a_log_csv = Some ''log.csv''\<rparr>"

definition wide_type_args :: Namespace where
  "wide_type_args = scenario_args\<lparr>a_msg_type := 324\<rparr>"

definition scenario_cfg :: GenConfig where
  "scenario_cfg = parse_args scenario_args"

text \<open>
  A socket that takes every byte offered, one that raises on its third \<open>send\<close>, and a
  stream of raw draws.
\<close>

definition good_sock :: sock where
  "good_sock =
     \<lparr>connect_fails = False, on_send = (\<lambda>i. Sent 4096), n_send = 0, wire = [],
      on_recv = (\<lambda>i. RecvTimeout), n_recv = 0\<rparr>"

definition bad_sock :: sock where
  "bad_sock = good_sock\<lparr>on_send := (\<lambda>i. if i = 2 then SendFails else Sent 4096)\<rparr>"

definition some_rng :: rng where
  "some_rng = \<lparr>raw = (\<lambda>i. 7 * i + 2), pos = 0\<rparr>"

text \<open>
  A world whose clock stands at 0 for its first three readings and at 100 from then on,
  and a world whose clock stands still and whose socket is \<open>bad_sock\<close>.
\<close>

definition short_world :: world where
  "short_world =
     \<lparr>clock = (\<lambda>k. if k < 3 then 0 else 100), ticks = 0, prng = (\<lambda>s i. 7 * i + 2),
      open_fails = False, net = good_sock,
      stats = \<lparr>sent = 0, send_bytes = 0, send_fail = 0, replies = 0, recv_bytes = 0,
                t0 = 0, t_last_report = 0\<rparr>,
      csv = None, gen = Fresh, deadlines = Unstarted, frag_rng = some_rng, run_seq = 0,
      attempts = []\<rparr>"


section \<open>Properties of the framing helpers\<close>

lemma and_mask32: "(seq :: int) AND 4294967295 = seq mod 4294967296"
proof -
  have "(4294967295 :: int) = mask 32" by (simp add: mask_eq_exp_minus_1)
  then have "seq AND 4294967295 = take_bit 32 seq" by (simp only: take_bit_eq_mask)
  then show ?thesis by (simp only: take_bit_eq_mod) simp
qed

lemma split8: "(x :: int) = drop_bit 8 x * 256 + take_bit 8 x"
  using bits_ident [of 8 x] by (simp add: push_bit_eq_mult)

lemma top8:
  fixes v :: int
  assumes "0 \<le> v" "v < 4294967296"
  shows "take_bit 8 (drop_bit 24 v) = drop_bit 24 v"
proof -
  have "take_bit 32 v = v"
    using assms by (simp add: take_bit_int_eq_self)
  then show ?thesis
    by (simp add: take_bit_drop_bit)
qed

lemma be_value:
  fixes v :: int
  assumes "0 \<le> v" "v < 4294967296"
  shows "take_bit 8 (drop_bit 24 v) * 16777216 + take_bit 8 (drop_bit 16 v) * 65536
       + take_bit 8 (drop_bit 8 v) * 256 + take_bit 8 v = v"
proof -
  have 1: "v = drop_bit 8 v * 256 + take_bit 8 v"
    by (rule split8)
  have 2: "drop_bit 8 v = drop_bit 16 v * 256 + take_bit 8 (drop_bit 8 v)"
    using split8 [of "drop_bit 8 v"] by (simp add: drop_bit_drop_bit)
  have 3: "drop_bit 16 v = drop_bit 24 v * 256 + take_bit 8 (drop_bit 16 v)"
    using split8 [of "drop_bit 16 v"] by (simp add: drop_bit_drop_bit)
  from 1 2 3 top8 [OF assms] show ?thesis
    by linarith
qed

lemma uint_byte: "uint (word_of_int x :: byte) = take_bit 8 x"
  by (simp add: uint_word_of_int_eq)

lemma pack_be_I_masked:
  "\<exists>b0 b1 b2 b3. pack_be_I (seq AND 4294967295) = Inr [b0, b1, b2, b3]
     \<and> uint b0 * 16777216 + uint b1 * 65536 + uint b2 * 256 + uint b3 = seq mod 4294967296"
proof -
  let ?v = "seq mod 4294967296"
  have r: "0 \<le> ?v" "?v < 4294967296" by simp_all
  then have le: "?v \<le> 4294967295" by linarith
  have "pack_be_I ?v = Inr [word_of_int (drop_bit 24 ?v), word_of_int (drop_bit 16 ?v),
             word_of_int (drop_bit 8 ?v), word_of_int ?v]"
    unfolding pack_be_I_def using r(1) le by (simp only: if_True simp_thms)
  moreover have "uint (word_of_int (drop_bit 24 ?v) :: byte) * 16777216
      + uint (word_of_int (drop_bit 16 ?v) :: byte) * 65536
      + uint (word_of_int (drop_bit 8 ?v) :: byte) * 256 + uint (word_of_int ?v :: byte) = ?v"
    unfolding uint_byte by (rule be_value [OF r])
  ultimately show ?thesis
    unfolding and_mask32 by blast
qed

lemma pack_BB_ok:
  "0 \<le> a \<Longrightarrow> a \<le> 255 \<Longrightarrow> 0 \<le> b \<Longrightarrow> b \<le> 255 \<Longrightarrow>
   pack_BB a b = Inr [word_of_int a, word_of_int b]"
  by (simp add: pack_BB_def)

lemma uint_byte_of_int:
  "0 \<le> a \<Longrightarrow> a \<le> 255 \<Longrightarrow> uint (word_of_int a :: byte) = a"
  by (simp add: uint_byte take_bit_int_eq_self)

lemma build_message_ok:
  assumes "0 \<le> mt" "mt \<le> 255" "length payload \<le> 254"
  shows "build_message mt payload =
           Inr (word_of_int (1 + int (length payload)) # word_of_int mt # payload)"
  using assms by (simp add: build_message_def pack_BB_ok)

lemma decode_frame_append:
  assumes "uint len = 1 + int (length payload)"
  shows "decode_frame (len # ty # payload @ rest) = Some (ty, payload, rest)"
proof -
  from assms have "unat len = Suc (length payload)"
    by (simp add: unat_eq_nat_uint)
  then show ?thesis
    by (simp add: decode_frame_def)
qed

text \<open>
  Claim C2. For a message type in 0..255 and a payload of at most 254 bytes,
  \<open>build_message\<close> returns a frame of 2 + len(payload) bytes: byte 0 is 1 + len(payload),
  byte 1 is the message type, the rest is the payload; decoding the frame by the
  LEN, TYPE, PAYLOAD rule, with anything after it on the stream, gives back the message
  type and the payload.
\<close>

theorem build_message_frame:
  assumes "0 \<le> mt" and "mt \<le> 255" and "length payload \<le> 254"
  shows "\<exists>frame. build_message mt payload = Inr frame
           \<and> length frame = 2 + length payload
           \<and> uint (frame ! 0) = 1 + int (length payload)
           \<and> uint (frame ! 1) = mt
           \<and> drop 2 frame = payload
           \<and> (\<forall>rest. decode_frame (frame @ rest) = Some (word_of_int mt, payload, rest))"
proof -
  let ?len = "word_of_int (1 + int (length payload)) :: byte"
  let ?frame = "?len # word_of_int mt # payload"
  have len: "uint ?len = 1 + int (length payload)"
    using assms(3) by (intro uint_byte_of_int) simp_all
  have "build_message mt payload = Inr ?frame"
    by (rule build_message_ok [OF assms])
  moreover have "length ?frame = 2 + length payload" by simp
  moreover have "uint (?frame ! 0) = 1 + int (length payload)" using len by simp
  moreover have "uint (?frame ! 1) = mt" using assms(1,2) by (simp add: uint_byte_of_int)
  moreover have "drop 2 ?frame = payload" by simp
  moreover have "\<forall>rest. decode_frame (?frame @ rest) = Some (word_of_int mt, payload, rest)"
    using decode_frame_append [OF len] by simp
  ultimately show ?thesis by blast
qed

theorem build_message_frame_witness:
  "(0::int) \<le> 68 \<and> (68::int) \<le> 255 \<and> length [0, 0, 1 :: byte] \<le> 254
   \<and> (\<exists>frame. build_message 68 [0, 0, 1] = Inr frame
           \<and> length frame = 2 + length [0, 0, 1 :: byte]
           \<and> uint (frame ! 0) = 1 + int (length [0, 0, 1 :: byte])
           \<and> uint (frame ! 1) = 68
           \<and> drop 2 frame = [0, 0, 1]
           \<and> (\<forall>rest. decode_frame (frame @ rest) = Some (word_of_int 68, [0, 0, 1], rest)))"
proof -
  have h: "(0::int) \<le> 68" "(68::int) \<le> 255" "length [0, 0, 1 :: byte] \<le> 254"
    by simp_all
  from build_message_frame [OF h] show ?thesis
    by simp
qed

text \<open>
  Claim C5. \<open>build_message\<close> raises, and returns no frame, when the payload is longer
  than 254 bytes or the message type is outside 0..255; it returns a frame when both
  constraints hold.
\<close>

theorem build_message_rejects:
  "(254 < length payload \<or> mt < 0 \<or> 255 < mt \<longrightarrow> (\<exists>e. build_message mt payload = Inl e))
   \<and> (length payload \<le> 254 \<and> 0 \<le> mt \<and> mt \<le> 255 \<longrightarrow>
        (\<exists>frame. build_message mt payload = Inr frame))"
proof (intro conjI impI)
  assume "254 < length payload \<or> mt < 0 \<or> 255 < mt"
  then show "\<exists>e. build_message mt payload = Inl e"
    by (auto simp: build_message_def)
next
  assume "length payload \<le> 254 \<and> 0 \<le> mt \<and> mt \<le> 255"
  then show "\<exists>frame. build_message mt payload = Inr frame"
    by (simp add: build_message_ok)
qed

theorem build_message_rejects_witness:
  "(\<exists>e. build_message 68 (replicate 255 0) = Inl e)
   \<and> (\<exists>e. build_message 256 [] = Inl e)
   \<and> (\<exists>e. build_message (- 1) [] = Inl e)
   \<and> (\<exists>frame. build_message 68 (replicate 254 0) = Inr frame)"
  using build_message_rejects [of "replicate 255 0" 68]
    build_message_rejects [of "[]" 256]
    build_message_rejects [of "[]" "- 1"]
    build_message_rejects [of "replicate 254 0" 68]
  by simp

text \<open>
  Claim C3, as amended. For a payload length \<open>n\<close> with \<open>0 < n < 4\<close>, \<open>make_payload\<close>
  returns the first \<open>n\<close> bytes, the high-order ones, of the big-endian four-byte
  encoding of the sequence number modulo \<open>2^32\<close>, and leaves the random stream as it
  was. The four bytes are characterised by their value.
\<close>

theorem make_payload_short:
  assumes "0 < payload_len cfg" and "payload_len cfg < 4"
  shows "\<exists>b0 b1 b2 b3.
           uint b0 * 16777216 + uint b1 * 65536 + uint b2 * 256 + uint b3 = seq mod 4294967296
           \<and> make_payload cfg seq r = (Inr (take (nat (payload_len cfg)) [b0, b1, b2, b3]), r)"
proof -
  obtain b0 b1 b2 b3 where p: "pack_be_I (seq AND 4294967295) = Inr [b0, b1, b2, b3]"
    and v: "uint b0 * 16777216 + uint b1 * 65536 + uint b2 * 256 + uint b3 = seq mod 4294967296"
    using pack_be_I_masked by blast
  from assms p have "make_payload cfg seq r = (Inr (take (nat (payload_len cfg)) [b0, b1, b2, b3]), r)"
    by (simp add: make_payload_def Let_def)
  with v show ?thesis by blast
qed

theorem make_payload_short_witness:
  "0 < payload_len scenario_cfg \<and> payload_len scenario_cfg < 4
   \<and> (\<exists>b0 b1 b2 b3.
           uint b0 * 16777216 + uint b1 * 65536 + uint b2 * 256 + uint b3 = 1 mod 4294967296
           \<and> make_payload scenario_cfg 1 some_rng
               = (Inr (take (nat (payload_len scenario_cfg)) [b0, b1, b2, b3]), some_rng))
   \<and> make_payload scenario_cfg 1 some_rng = (Inr [0, 0, 0], some_rng)
   \<and> build_message (msg_type scenario_cfg) [0, 0, 0] = Inr [4, 68, 0, 0, 0]"
proof -
  have h: "0 < payload_len scenario_cfg" "payload_len scenario_cfg < 4"
    by (simp_all add: scenario_cfg_def parse_args_def scenario_args_def)
  have "make_payload scenario_cfg 1 some_rng = (Inr [0, 0, 0], some_rng)"
    by (simp add: make_payload_def pack_be_I_def scenario_cfg_def parse_args_def
        scenario_args_def)
  moreover have "build_message (msg_type scenario_cfg) [0, 0, 0] = Inr [4, 68, 0, 0, 0]"
    by (simp add: build_message_def pack_BB_def scenario_cfg_def parse_args_def
        scenario_args_def)
  ultimately show ?thesis
    using h make_payload_short [OF h, of 1 some_rng] by simp
qed

text \<open>
  Claim C3 as stated fails: with message type 0x44, payload length 3 and sequence
  number 1 the payload is \<open>[0, 0, 0]\<close>, not the low-order bytes \<open>[0, 0, 1]\<close>, and the
  frame is not \<open>[4, 0x44, 0, 0, 1]\<close>.
\<close>

theorem make_payload_low_bytes_counterexample:
  "payload_len scenario_cfg = 3 \<and> msg_type scenario_cfg = 68
   \<and> fst (make_payload scenario_cfg 1 some_rng) = Inr [0, 0, 0]
   \<and> fst (make_payload scenario_cfg 1 some_rng) \<noteq> Inr [0, 0, 1]
   \<and> build_message (msg_type scenario_cfg) [0, 0, 0] \<noteq> Inr [4, 68, 0, 0, 1]"
  by (simp add: make_payload_def pack_be_I_def build_message_def pack_BB_def scenario_cfg_def
      parse_args_def scenario_args_def)

section \<open>Properties of the fragmenter\<close>

lemma randint_range:
  assumes "randint a b r = (Inr v, r')"
  shows "a \<le> v \<and> v \<le> b"
proof -
  from assms have lt: "a < b + 1" and v: "v = a + int (raw r (pos r)) mod (b + 1 - a)"
    by (auto simp: randint_def randrange_def split: if_splits)
  from lt have "0 \<le> int (raw r (pos r)) mod (b + 1 - a)"
    and "int (raw r (pos r)) mod (b + 1 - a) < b + 1 - a"
    by simp_all
  with v show ?thesis by linarith
qed

lemma randint_ok:
  assumes "a \<le> b"
  shows "\<exists>v. randint a b r = (Inr v, r\<lparr>pos := Suc (pos r)\<rparr>)"
  using assms by (simp add: randint_def randrange_def)

lemma send_all_from_error:
  "send_all_from s data tot = (Inl e, s') \<Longrightarrow> transport_error e"
proof (induction s data tot rule: send_all_from.induct)
  case (1 s data tot)
  show ?case
  proof (cases "tot < length data")
    case False
    with "1.prems" show ?thesis by simp
  next
    case True
    obtain x s1 where sd: "sock_send s (drop tot data) = (x, s1)"
      by (cases "sock_send s (drop tot data)")
    show ?thesis
    proof (cases x)
      case (Inl e1)
      with True sd "1.prems" have "e = e1" by simp
      moreover from sd Inl have "e1 = OSError ''send''"
        by (auto simp: sock_send_def split: send_reply.splits)
      ultimately show ?thesis by (simp add: transport_error_def)
    next
      case (Inr n)
      show ?thesis
      proof (cases "n \<le> 0")
        case True
        with \<open>tot < length data\<close> sd Inr "1.prems" show ?thesis
          by (simp add: transport_error_def)
      next
        case False
        with \<open>tot < length data\<close> sd Inr "1.prems" "1.IH" [OF \<open>tot < length data\<close> sd [symmetric] Inr False]
        show ?thesis by simp
      qed
    qed
  qed
qed

lemma send_all_error: "send_all s data = (Inl e, s') \<Longrightarrow> transport_error e"
  unfolding send_all_def by (rule send_all_from_error)


lemma sff_props:
  assumes "send_fragmented_from s data r mc i = (res, s', r', cs)" and "1 \<le> mc"
  shows "(\<forall>c \<in> set cs. 1 \<le> length c \<and> int (length c) \<le> mc)
       \<and> (\<exists>rest. drop i data = concat cs @ rest)
       \<and> (res = Inr () \<longrightarrow> concat cs = drop i data)
       \<and> (\<forall>e. res = Inl e \<longrightarrow> transport_error e)"
  using assms
proof (induction s data r mc i arbitrary: res s' r' cs rule: send_fragmented_from.induct)
  case (1 s data r mc i)
  show ?case
  proof (cases "i < length data")
    case False
    with "1.prems" show ?thesis by auto
  next
    case True
    let ?hi = "min mc (int (length data) - int i)"
    from True "1.prems"(2) have hi: "1 \<le> ?hi" by simp
    then obtain cl where rnd: "randint 1 ?hi r = (Inr cl, r\<lparr>pos := Suc (pos r)\<rparr>)"
      using randint_ok by blast
    let ?r1 = "r\<lparr>pos := Suc (pos r)\<rparr>"
    from randint_range [OF rnd] have cl: "1 \<le> cl" "cl \<le> mc" "cl \<le> int (length data) - int i"
      by simp_all
    let ?chunk = "take (nat cl) (drop i data)"
    from cl True have len: "length ?chunk = nat cl" by simp
    have split: "drop i data = ?chunk @ drop (i + nat cl) data"
      using append_take_drop_id [of "nat cl" "drop i data"] by (simp add: add.commute)
    obtain x s1 where sa: "send_all s ?chunk = (x, s1)"
      by (cases "send_all s ?chunk")
    show ?thesis
    proof (cases x)
      case (Inl e)
      with True rnd sa "1.prems"(1) have "res = Inl e" "cs = [?chunk]"
        by simp_all
      moreover from sa Inl have "transport_error e" by (simp add: send_all_error)
      ultimately show ?thesis using len cl split by auto
    next
      case (Inr u)
      obtain res2 s2 r2 cs2 where rec:
        "send_fragmented_from s1 data ?r1 mc (i + nat cl) = (res2, s2, r2, cs2)"
        by (cases "send_fragmented_from s1 data ?r1 mc (i + nat cl)")
      from True rnd sa Inr rec "1.prems"(1) have res: "res = res2" "cs = ?chunk # cs2"
        by simp_all
      have ih: "(\<forall>c \<in> set cs2. 1 \<le> length c \<and> int (length c) \<le> mc)
       \<and> (\<exists>rest. drop (i + nat cl) data = concat cs2 @ rest)
       \<and> (res2 = Inr () \<longrightarrow> concat cs2 = drop (i + nat cl) data)
       \<and> (\<forall>e. res2 = Inl e \<longrightarrow> transport_error e)"
        by (rule "1.IH" [OF True rnd [symmetric] refl sa [symmetric] Inr rec "1.prems"(2)])
      then obtain rest where rest: "drop (i + nat cl) data = concat cs2 @ rest" by blast
      with split have "drop i data = concat (?chunk # cs2) @ rest" by simp
      then have "\<exists>rest. drop i data = concat cs @ rest" unfolding res by blast
      moreover have "res = Inr () \<longrightarrow> concat cs = drop i data"
        using ih split unfolding res by auto
      moreover have "\<forall>c \<in> set cs. 1 \<le> length c \<and> int (length c) \<le> mc"
        using ih len cl unfolding res by auto
      moreover have "\<forall>e. res = Inl e \<longrightarrow> transport_error e"
        using ih unfolding res by blast
      ultimately show ?thesis by blast
    qed
  qed
qed


lemma send_all_from_reliable:
  "reliable s \<Longrightarrow> \<exists>s'. send_all_from s data tot = (Inr (), s') \<and> reliable s'"
proof (induction s data tot rule: send_all_from.induct)
  case (1 s data tot)
  show ?case
  proof (cases "tot < length data")
    case False
    with "1.prems" show ?thesis by simp
  next
    case True
    from "1.prems" obtain n where n: "on_send s (n_send s) = Sent n" "1 \<le> n"
      unfolding reliable_def by blast
    let ?s1 = "s\<lparr>n_send := Suc (n_send s), wire := wire s @ take (nat n) (drop tot data)\<rparr>"
    have sd: "sock_send s (drop tot data) = (Inr n, ?s1)"
      using n by (simp add: sock_send_def)
    have rel: "reliable ?s1"
      using "1.prems" by (simp add: reliable_def)
    from n have pos: "\<not> n \<le> 0" by simp
    have "\<exists>s'. send_all_from ?s1 data (tot + nat n) = (Inr (), s') \<and> reliable s'"
      by (rule "1.IH" [OF True sd [symmetric] refl pos rel])
    with True sd pos show ?thesis by simp
  qed
qed

lemma send_all_reliable:
  "reliable s \<Longrightarrow> \<exists>s'. send_all s data = (Inr (), s') \<and> reliable s'"
  unfolding send_all_def by (rule send_all_from_reliable)

lemma sff_reliable:
  assumes "reliable s" and "1 \<le> mc"
  shows "fst (send_fragmented_from s data r mc i) = Inr ()"
  using assms
proof (induction s data r mc i rule: send_fragmented_from.induct)
  case (1 s data r mc i)
  show ?case
  proof (cases "i < length data")
    case False
    then show ?thesis by simp
  next
    case True
    let ?hi = "min mc (int (length data) - int i)"
    let ?r1 = "r\<lparr>pos := Suc (pos r)\<rparr>"
    from True "1.prems"(2) have "1 \<le> ?hi" by simp
    then obtain cl where rnd: "randint 1 ?hi r = (Inr cl, ?r1)"
      using randint_ok by blast
    let ?chunk = "take (nat cl) (drop i data)"
    from send_all_reliable [OF "1.prems"(1)] obtain s1
      where sa: "send_all s ?chunk = (Inr (), s1)" and rel: "reliable s1"
      by blast
    have "fst (send_fragmented_from s1 data ?r1 mc (i + nat cl)) = Inr ()"
      by (rule "1.IH" [OF True rnd [symmetric] refl sa [symmetric] refl rel "1.prems"(2)])
    with True rnd sa show ?thesis
      by (simp add: split_beta)
  qed
qed

lemma length_le_concat:
  "\<forall>c \<in> set cs. 1 \<le> length c \<Longrightarrow> length cs \<le> length (concat cs)"
  by (induction cs) auto

lemma concat_take_grows:
  assumes "\<forall>c \<in> set cs. 1 \<le> length c" and "k < length cs"
  shows "length (concat (take k cs)) < length (concat (take (Suc k) cs))"
proof -
  from assms have "1 \<le> length (cs ! k)" by simp
  then have "cs ! k \<noteq> []" by auto
  with assms(2) show ?thesis
    by (simp add: take_Suc_conv_app_nth)
qed

lemma concat_take_le: "length (concat (take k cs)) \<le> length (concat cs)"
proof -
  have "concat cs = concat (take k cs) @ concat (drop k cs)"
    by (simp flip: concat_append)
  then show ?thesis by (metis le_add1 length_append)
qed

text \<open>
  Claim C1. For every data and every \<open>max_chunk \<ge> 1\<close>: every chunk that
  \<open>send_fragmented\<close> emits has between 1 and \<open>max_chunk\<close> bytes; the chunks emitted,
  concatenated in order, are a prefix of the data, and are the data whenever the call
  returns, which it does on every reliable socket; empty data gives no chunk.
\<close>

theorem send_fragmented_reconstructs:
  assumes "1 \<le> max_chunk" and "send_fragmented s data r max_chunk = (res, s', r', chunks)"
  shows "(\<forall>c \<in> set chunks. 1 \<le> length c \<and> int (length c) \<le> max_chunk)
       \<and> (\<exists>rest. data = concat chunks @ rest)
       \<and> (res = Inr () \<longrightarrow> concat chunks = data)
       \<and> (reliable s \<longrightarrow> res = Inr ())
       \<and> (data = [] \<longrightarrow> chunks = [] \<and> res = Inr ())"
proof -
  from assms have run: "send_fragmented_from s data r max_chunk 0 = (res, s', r', chunks)"
    by (simp add: send_fragmented_def)
  from sff_props [OF run assms(1)]
  have "\<forall>c \<in> set chunks. 1 \<le> length c \<and> int (length c) \<le> max_chunk"
    and "\<exists>rest. data = concat chunks @ rest"
    and "res = Inr () \<longrightarrow> concat chunks = data"
    by simp_all
  moreover have "reliable s \<longrightarrow> res = Inr ()"
    using sff_reliable [OF _ assms(1), of s data r 0] run by simp
  moreover have "data = [] \<longrightarrow> chunks = [] \<and> res = Inr ()"
    using run by auto
  ultimately show ?thesis by blast
qed

theorem send_fragmented_reconstructs_witness:
  "(1::int) \<le> 2
   \<and> fst (send_fragmented good_sock [4, 68, 0, 0, 1] some_rng 2) = Inr ()
   \<and> snd (snd (snd (send_fragmented good_sock [4, 68, 0, 0, 1] some_rng 2)))
       = [[4], [68, 0], [0], [1]]
   \<and> concat (snd (snd (snd (send_fragmented good_sock [4, 68, 0, 0, 1] some_rng 2))))
       = [4, 68, 0, 0, 1]
   \<and> wire (fst (snd (send_fragmented good_sock [4, 68, 0, 0, 1] some_rng 2)))
       = [4, 68, 0, 0, 1]"
proof -
  let ?x = "send_fragmented good_sock [4, 68, 0, 0, 1] some_rng 2"
  have h1: "(1::int) \<le> 2" by simp
  have h2: "?x = (fst ?x, fst (snd ?x), fst (snd (snd ?x)), snd (snd (snd ?x)))"
    by simp
  have v: "fst ?x = Inr ()" "snd (snd (snd ?x)) = [[4], [68, 0], [0], [1]]"
    "wire (fst (snd ?x)) = [4, 68, 0, 0, 1]"
    by code_simp+
  from send_fragmented_reconstructs [OF h1 h2] v(1)
  have "concat (snd (snd (snd ?x))) = [4, 68, 0, 0, 1]"
    by blast
  with h1 v show ?thesis
    by blast
qed

text \<open>
  Claim C6. For \<open>max_chunk \<le> 0\<close>, \<open>send_fragmented\<close> raises the ValueError of line 136
  with the socket and the random stream untouched and no chunk emitted; for
  \<open>max_chunk > 0\<close> that error is never the result.
\<close>

theorem send_fragmented_guard:
  "(max_chunk \<le> 0 \<longrightarrow>
      send_fragmented s data r max_chunk = (Inl (ValueError ''max_chunk must be > 0''), s, r, []))
   \<and> (0 < max_chunk \<longrightarrow>
      fst (send_fragmented s data r max_chunk) \<noteq> Inl (ValueError ''max_chunk must be > 0''))"
proof (intro conjI impI)
  assume "max_chunk \<le> 0"
  then show "send_fragmented s data r max_chunk
      = (Inl (ValueError ''max_chunk must be > 0''), s, r, [])"
    by (simp add: send_fragmented_def)
next
  assume pos: "0 < max_chunk"
  obtain res s' r' cs where run: "send_fragmented_from s data r max_chunk 0 = (res, s', r', cs)"
    by (cases "send_fragmented_from s data r max_chunk 0")
  from pos have "1 \<le> max_chunk" by simp
  from sff_props [OF run this] have "\<forall>e. res = Inl e \<longrightarrow> transport_error e"
    by blast
  then have "res \<noteq> Inl (ValueError ''max_chunk must be > 0'')"
    by (auto simp: transport_error_def)
  with pos run show "fst (send_fragmented s data r max_chunk)
      \<noteq> Inl (ValueError ''max_chunk must be > 0'')"
    by (simp add: send_fragmented_def)
qed

theorem send_fragmented_guard_witness:
  "send_fragmented good_sock [4, 68, 0, 0, 1] some_rng 0
     = (Inl (ValueError ''max_chunk must be > 0''), good_sock, some_rng, [])
   \<and> send_fragmented good_sock [4, 68, 0, 0, 1] some_rng (- 3)
     = (Inl (ValueError ''max_chunk must be > 0''), good_sock, some_rng, [])
   \<and> fst (send_fragmented good_sock [4, 68, 0, 0, 1] some_rng 8)
     \<noteq> Inl (ValueError ''max_chunk must be > 0'')"
  using send_fragmented_guard [of 0 good_sock "[4, 68, 0, 0, 1]" some_rng]
    send_fragmented_guard [of "- 3" good_sock "[4, 68, 0, 0, 1]" some_rng]
    send_fragmented_guard [of 8 good_sock "[4, 68, 0, 0, 1]" some_rng]
  by simp

text \<open>
  Claim C10. For every data and every \<open>max_chunk \<ge> 1\<close> the loop of \<open>send_fragmented\<close>
  ends with a result: every pass emits a chunk of at least one byte, so the offset after
  each pass is larger than before it and at most \<open>len(data)\<close>, and there are at most
  \<open>len(data)\<close> passes.
\<close>

theorem send_fragmented_terminates:
  assumes "1 \<le> max_chunk"
  shows "\<exists>res s' r' chunks.
           send_fragmented s data r max_chunk = (res, s', r', chunks)
           \<and> length chunks \<le> length data
           \<and> (\<forall>c \<in> set chunks. 1 \<le> length c)
           \<and> (\<forall>k < length chunks.
                 length (concat (take k chunks)) < length (concat (take (Suc k) chunks))
                 \<and> length (concat (take (Suc k) chunks)) \<le> length data)"
proof -
  obtain res s' r' cs where run: "send_fragmented_from s data r max_chunk 0 = (res, s', r', cs)"
    by (cases "send_fragmented_from s data r max_chunk 0")
  from sff_props [OF run assms]
  have ge1: "\<forall>c \<in> set cs. 1 \<le> length c" and "\<exists>rest. data = concat cs @ rest"
    by simp_all
  then have le: "length (concat cs) \<le> length data"
    by (metis le_add1 length_append)
  have "length cs \<le> length data"
    using length_le_concat [OF ge1] le by linarith
  moreover have "\<forall>k < length cs.
      length (concat (take k cs)) < length (concat (take (Suc k) cs))
      \<and> length (concat (take (Suc k) cs)) \<le> length data"
    using concat_take_grows [OF ge1] concat_take_le [of _ cs] le
    by (meson le_trans)
  moreover from assms run have "send_fragmented s data r max_chunk = (res, s', r', cs)"
    by (simp add: send_fragmented_def)
  ultimately show ?thesis using ge1 by blast
qed

theorem send_fragmented_terminates_witness:
  "(1::int) \<le> 2
   \<and> (\<exists>res s' r' chunks.
           send_fragmented bad_sock [4, 68, 0, 0, 1] some_rng 2 = (res, s', r', chunks)
           \<and> length chunks \<le> length [4, 68, 0, 0, 1 :: byte])
   \<and> fst (send_fragmented bad_sock [4, 68, 0, 0, 1] some_rng 2) = Inl (OSError ''send'')
   \<and> snd (snd (snd (send_fragmented bad_sock [4, 68, 0, 0, 1] some_rng 2)))
       = [[4], [68, 0], [0]]"
proof -
  let ?x = "send_fragmented bad_sock [4, 68, 0, 0, 1] some_rng 2"
  have h: "(1::int) \<le> 2" by simp
  have v: "fst ?x = Inl (OSError ''send'')" "snd (snd (snd ?x)) = [[4], [68, 0], [0]]"
    by code_simp+
  with h send_fragmented_terminates [OF h, of bad_sock "[4, 68, 0, 0, 1]" some_rng]
  show ?thesis by blast
qed

section \<open>Properties of a run\<close>

lemma good_core: "core w' = core w \<Longrightarrow> good cfg w' = good cfg w"
  by (simp add: core_def good_def)

lemma at_head_core: "core w' = core w \<Longrightarrow> at_head cfg w' = at_head cfg w"
  by (simp add: core_def at_head_def good_def cong: msg_gen.case_cong)

lemma core_perf_counter: "core (snd (perf_counter w)) = core w"
  by (simp add: core_def perf_counter_def)

lemma core_maybe_sleep_until: "core (maybe_sleep_until d w) = core w"
  by (simp add: core_def maybe_sleep_until_def perf_counter_def)

lemma core_maybe_report: "core (maybe_report w) = core w"
  by (simp add: core_def maybe_report_def perf_counter_def)

lemma core_final_report: "core (final_report w) = core w"
  by (simp add: core_def final_report_def perf_counter_def)

lemma core_next_deadline: "core (snd (rate_controller_next_deadline rate w)) = core w"
  by (simp add: core_def rate_controller_next_deadline_def perf_counter_def Let_def
      split: pacer.splits)

lemma core_recv_reply:
  "core (case recv_reply w of Continue w' \<Rightarrow> w' | Break w' \<Rightarrow> w' | Raised e w' \<Rightarrow> w') = core w"
  by (simp add: core_def recv_reply_def sock_recv_def split: recv_reply.splits)

lemma fill_random_length:
  "fill_random k r = (Inr bs, r') \<Longrightarrow> length bs = k"
  by (induction k arbitrary: r bs r')
     (auto simp: randrange_def split: prod.splits sum.splits if_splits)

lemma make_payload_embeds:
  assumes "make_payload cfg seq r = (Inr p, r')"
  shows "embeds_seq (payload_len cfg) seq p"
proof -
  obtain b0 b1 b2 b3 where pk: "pack_be_I (seq AND 4294967295) = Inr [b0, b1, b2, b3]"
    and v: "uint b0 * 16777216 + uint b1 * 65536 + uint b2 * 256 + uint b3 = seq mod 4294967296"
    using pack_be_I_masked by blast
  let ?n = "payload_len cfg"
  consider "?n = 0" | "?n < 0" | "4 \<le> ?n" | "0 < ?n" "?n < 4" by linarith
  then have "take 4 p = take (nat ?n) [b0, b1, b2, b3]"
  proof cases
    case 1
    with assms show ?thesis by (simp add: make_payload_def)
  next
    case 2
    with assms show ?thesis by (simp add: make_payload_def)
  next
    case 3
    with assms pk obtain rest where "p = [b0, b1, b2, b3] @ rest"
      by (auto simp: make_payload_def split: prod.splits sum.splits)
    with 3 show ?thesis by simp
  next
    case 4
    with assms pk have "p = take (nat ?n) [b0, b1, b2, b3]"
      by (simp add: make_payload_def)
    then show ?thesis by (simp add: min_def)
  qed
  with v show ?thesis unfolding embeds_seq_def by blast
qed

lemma build_message_payload:
  "build_message mt p = Inr msg \<Longrightarrow> drop 2 msg = p"
  by (auto simp: build_message_def pack_BB_def split: if_splits)

lemma message_stream_body_framed:
  assumes "message_stream_body cfg r k = (Inr msg, g)"
  shows "framed cfg k msg \<and> (\<exists>r'. g = Yielded r' k)"
proof -
  from assms obtain p r' where mp: "make_payload cfg (int k) r = (Inr p, r')"
    and bm: "build_message (msg_type cfg) p = Inr msg" and g: "g = Yielded r' k"
    by (auto simp: message_stream_body_def split: prod.splits sum.splits)
  from mp bm build_message_payload [OF bm] make_payload_embeds [OF mp]
  have "framed cfg k msg" unfolding framed_def by blast
  with g show ?thesis by blast
qed

lemma message_stream_body_raises:
  "message_stream_body cfg r k = (Inl e, g) \<Longrightarrow> g = Dead"
  by (auto simp: message_stream_body_def split: prod.splits sum.splits)

lemma message_stream_at_head:
  assumes "at_head cfg w" and "message_stream cfg w = (res, w')"
  shows "(\<forall>msg. res = Inr msg \<longrightarrow>
            framed cfg (run_seq w) msg \<and> ready cfg w' \<and> run_seq w' = run_seq w)
       \<and> (\<forall>e. res = Inl e \<longrightarrow> good cfg w' \<and> send_fail (stats w') = 0)"
proof (cases "gen w")
  case Fresh
  obtain x g where b: "message_stream_body cfg (Random w (seed cfg)) 0 = (x, g)"
    by (cases "message_stream_body cfg (Random w (seed cfg)) 0")
  with Fresh assms(2) have r: "res = x" "w' = w\<lparr>gen := g\<rparr>"
    by (simp_all add: message_stream_def)
  from Fresh assms(1) have z: "run_seq w = 0" by (simp add: at_head_def)
  show ?thesis
  proof (cases x)
    case (Inl e)
    with assms(1) r show ?thesis by (simp add: at_head_def good_def)
  next
    case (Inr msg)
    with message_stream_body_framed b z
    have "framed cfg (run_seq w) msg" "\<exists>r'. g = Yielded r' (run_seq w)" by auto
    with assms(1) r Inr show ?thesis
      by (auto simp: at_head_def ready_def good_def)
  qed
next
  case (Yielded r0 k)
  obtain x g where b: "message_stream_body cfg r0 (Suc k) = (x, g)"
    by (cases "message_stream_body cfg r0 (Suc k)")
  with Yielded assms(2) have r: "res = x" "w' = w\<lparr>gen := g\<rparr>"
    by (simp_all add: message_stream_def)
  from Yielded assms(1) have z: "run_seq w = Suc k" by (simp add: at_head_def)
  show ?thesis
  proof (cases x)
    case (Inl e)
    with assms(1) r show ?thesis by (simp add: at_head_def good_def)
  next
    case (Inr msg)
    with message_stream_body_framed b z
    have "framed cfg (run_seq w) msg" "\<exists>r'. g = Yielded r' (run_seq w)" by auto
    with assms(1) r Inr show ?thesis
      by (auto simp: at_head_def ready_def good_def)
  qed
next
  case Dead
  with assms(1) show ?thesis by (simp add: at_head_def)
qed

lemma log_shape_ok:
  assumes "log_shape atts (length atts) lg"
  shows "log_shape (atts @ [(k, m)]) (Suc (length atts))
           (map_option (\<lambda>rows. rows @ [Row k t (length m) ''ok'']) lg)"
proof (cases lg)
  case None
  then show ?thesis by (simp add: log_shape_def)
next
  case (Some rows)
  with assms obtain oks where rows: "rows = Header # oks" and oks: "list_all2 ok_row atts oks"
    by (auto simp: log_shape_def)
  have "list_all2 ok_row (atts @ [(k, m)]) (oks @ [Row k t (length m) ''ok''])"
    using oks by (intro list_all2_appendI) (simp_all add: ok_row_def)
  then have "\<exists>oks' fails. rows @ [Row k t (length m) ''ok''] = Header # oks' @ fails
      \<and> list_all2 ok_row (atts @ [(k, m)]) oks' \<and> list_all2 fail_row [] fails"
    using rows by (intro exI [of _ "oks @ [Row k t (length m) ''ok'']"] exI [of _ "[]"]) simp
  with Some show ?thesis by (simp add: log_shape_def)
qed

lemma log_shape_fail:
  assumes "log_shape atts (length atts) lg"
  shows "log_shape (atts @ [(k, m)]) (length atts)
           (map_option (\<lambda>rows. rows @ [Row k t 0 ''send_fail'']) lg)"
proof (cases lg)
  case None
  then show ?thesis by (simp add: log_shape_def)
next
  case (Some rows)
  with assms obtain oks where rows: "rows = Header # oks" and oks: "list_all2 ok_row atts oks"
    by (auto simp: log_shape_def)
  have "\<exists>oks' fails. rows @ [Row k t 0 ''send_fail''] = Header # oks' @ fails
      \<and> list_all2 ok_row atts oks' \<and> list_all2 fail_row [(k, m)] fails"
    using rows oks
    by (intro exI [of _ oks] exI [of _ "[Row k t 0 ''send_fail'']"]) (simp add: fail_row_def)
  with Some show ?thesis by (simp add: log_shape_def)
qed

lemma send_one_ready:
  assumes "ready cfg w" and "framed cfg (run_seq w) msg"
    and "send_one cfg w msg (run_seq w) = (res, w')"
  shows "(res = Inr () \<longrightarrow> at_head cfg (w'\<lparr>run_seq := Suc (run_seq w')\<rparr>))
       \<and> (\<forall>e. res = Inl e \<longrightarrow> good cfg w' \<and> send_fail (stats w') = 1)"
proof -
  let ?n = "length (attempts w)"
  from assms(1) have g: "good cfg w" and sf: "send_fail (stats w) = 0"
    and rs: "run_seq w = sent (stats w)" and gn: "\<exists>r. gen w = Yielded r (run_seq w)"
    unfolding ready_def by blast+
  from g sf rs have n: "sent (stats w) = ?n" "run_seq w = ?n"
    by (simp_all add: good_def)
  from g n have ls: "log_shape (attempts w) ?n (csv w)"
    and wl: "(csv w = None) = (\<not> wants_log cfg)"
    and fs: "map fst (attempts w) = [0..<?n]"
    and sb: "send_bytes (stats w) = sum_list (map (\<lambda>a. length (snd a)) (attempts w))"
    and fr: "list_all (\<lambda>a. framed cfg (fst a) (snd a)) (attempts w)"
    by (simp_all add: good_def)
  let ?w1 = "w\<lparr>attempts := attempts w @ [(run_seq w, msg)], ticks := Suc (ticks w)\<rparr>"
  obtain x s' r' where wm: "write_msg cfg (net w) (frag_rng w) msg = (x, s', r')"
    by (cases "write_msg cfg (net w) (frag_rng w) msg")
  show ?thesis
  proof (cases x)
    case (Inr u)
    with wm assms(3) have res: "res = Inr ()"
      and w': "w' = ?w1\<lparr>net := s', frag_rng := r',
          stats := (stats w)\<lparr>sent := sent (stats w) + 1,
                              send_bytes := send_bytes (stats w) + length msg\<rparr>,
          csv := map_option (\<lambda>rows. rows @ [Row (run_seq w) (clock w (ticks w)) (length msg) ''ok''])
                   (csv w)\<rparr>"
      by (simp_all add: send_one_def perf_counter_def)
    have "at_head cfg (w'\<lparr>run_seq := Suc (run_seq w')\<rparr>)"
      unfolding at_head_def good_def w'
      using sf n fs sb fr gn wl assms(2) log_shape_ok [OF ls, of "run_seq w" msg "clock w (ticks w)"]
      by auto
    with res show ?thesis by simp
  next
    case (Inl e)
    with wm assms(3) have res: "res = Inl e"
      and w': "w' = ?w1\<lparr>net := s', frag_rng := r',
          stats := (stats w)\<lparr>send_fail := send_fail (stats w) + 1\<rparr>,
          csv := map_option (\<lambda>rows. rows @ [Row (run_seq w) (clock w (ticks w)) 0 ''send_fail''])
                   (csv w)\<rparr>"
      by (simp_all add: send_one_def perf_counter_def)
    have "good cfg w' \<and> send_fail (stats w') = 1"
      unfolding good_def w'
      using sf n fs sb fr wl assms(2) log_shape_fail [OF ls, of "run_seq w" msg "clock w (ticks w)"]
      by auto
    with res show ?thesis by simp
  qed
qed

lemma at_head_perf_counter:
  "at_head cfg w \<Longrightarrow> perf_counter w = (now, w1) \<Longrightarrow> at_head cfg w1"
  using core_perf_counter [of w] at_head_core [of w1 w cfg] by simp

lemma burst_loop_at_head:
  assumes "at_head cfg w" and "burst_loop cfg et k w = (res, w')"
  shows "(res = Inr () \<longrightarrow> at_head cfg w') \<and> (\<forall>e. res = Inl e \<longrightarrow> good cfg w')"
  using assms
proof (induction k arbitrary: w)
  case 0
  then show ?case by auto
next
  case (Suc k)
  obtain now w1 where pc: "perf_counter w = (now, w1)"
    by (cases "perf_counter w")
  from at_head_perf_counter [OF Suc.prems(1) pc] have h1: "at_head cfg w1" .
  show ?case
  proof (cases "before now et")
    case False
    with pc Suc.prems(2) h1 show ?thesis by auto
  next
    case True
    obtain x w2 where ms: "message_stream cfg w1 = (x, w2)"
      by (cases "message_stream cfg w1")
    note m = message_stream_at_head [OF h1 ms]
    show ?thesis
    proof (cases x)
      case (Inl e)
      with pc True ms Suc.prems(2) m show ?thesis by auto
    next
      case (Inr msg)
      with m have fr: "framed cfg (run_seq w2) msg" and rd: "ready cfg w2" by simp_all
      obtain y w3 where so: "send_one cfg w2 msg (run_seq w2) = (y, w3)"
        by (cases "send_one cfg w2 msg (run_seq w2)")
      note s1 = send_one_ready [OF rd fr so]
      show ?thesis
      proof (cases y)
        case (Inl e)
        with pc True ms Inr so Suc.prems(2) s1 show ?thesis by auto
      next
        case u: (Inr u)
        with s1 have h3: "at_head cfg (w3\<lparr>run_seq := Suc (run_seq w3)\<rparr>)" by simp
        from pc True ms Inr so u Suc.prems(2)
        have "burst_loop cfg et k (w3\<lparr>run_seq := Suc (run_seq w3)\<rparr>) = (res, w')"
          by simp
        from Suc.IH [OF h3 this] show ?thesis .
      qed
    qed
  qed
qed

lemma at_head_good: "at_head cfg w \<Longrightarrow> good cfg w"
  by (simp add: at_head_def)

lemma recv_reply_at_head:
  assumes "at_head cfg w"
  shows "case recv_reply w of Continue w' \<Rightarrow> at_head cfg w' | Break w' \<Rightarrow> at_head cfg w'
         | Raised e w' \<Rightarrow> at_head cfg w'"
proof -
  let ?w' = "case recv_reply w of Continue w' \<Rightarrow> w' | Break w' \<Rightarrow> w' | Raised e w' \<Rightarrow> w'"
  from at_head_core [OF core_recv_reply, of cfg w] assms have "at_head cfg ?w'" by simp
  then show ?thesis by (cases "recv_reply w") simp_all
qed

lemma iteration_at_head:
  assumes "at_head cfg w"
  shows "flow_inv cfg (iteration cfg et w)"
proof (cases "burst cfg")
  case True
  obtain x w1 where bl: "burst_loop cfg et (nat (burst_msgs cfg)) w = (x, w1)"
    by (cases "burst_loop cfg et (nat (burst_msgs cfg)) w")
  note b = burst_loop_at_head [OF assms bl]
  show ?thesis
  proof (cases x)
    case (Inl e)
    with True bl b show ?thesis by (simp add: iteration_def flow_inv_def)
  next
    case (Inr u)
    with b have "at_head cfg w1" by simp
    with True bl Inr show ?thesis
      by (simp add: iteration_def flow_inv_def at_head_good split: sum.splits)
  qed
next
  case False
  obtain d w1 where nd: "rate_controller_next_deadline (rate_mps cfg) w = (d, w1)"
    by (cases "rate_controller_next_deadline (rate_mps cfg) w")
  let ?w1 = "maybe_sleep_until d w1"
  from nd core_next_deadline [of "rate_mps cfg" w] core_maybe_sleep_until [of d w1]
  have "core ?w1 = core w" by simp
  from at_head_core [OF this, of cfg] assms have h1: "at_head cfg ?w1" by simp
  obtain x w2 where ms: "message_stream cfg ?w1 = (x, w2)"
    by (cases "message_stream cfg ?w1")
  note m = message_stream_at_head [OF h1 ms]
  show ?thesis
  proof (cases x)
    case (Inl e)
    with False nd ms m show ?thesis by (simp add: iteration_def flow_inv_def)
  next
    case (Inr msg)
    with m have fr: "framed cfg (run_seq w2) msg" and rd: "ready cfg w2" by simp_all
    obtain y w3 where so: "send_one cfg w2 msg (run_seq w2) = (y, w3)"
      by (cases "send_one cfg w2 msg (run_seq w2)")
    note s1 = send_one_ready [OF rd fr so]
    show ?thesis
    proof (cases y)
      case (Inl e)
      with False nd ms Inr so s1 show ?thesis by (simp add: iteration_def flow_inv_def)
    next
      case u: (Inr u)
      let ?w4 = "w3\<lparr>run_seq := Suc (run_seq w3)\<rparr>"
      from u s1 have h4: "at_head cfg ?w4" by simp
      show ?thesis
      proof (cases "recv_replies cfg")
        case False
        from h4 at_head_core [OF core_maybe_report, of cfg ?w4]
        have "at_head cfg (maybe_report ?w4)"
          by simp
        with \<open>\<not> burst cfg\<close> nd ms Inr so u False show ?thesis
          by (simp add: iteration_def flow_inv_def)
      next
        case True
        have "flow_inv cfg (case recv_reply ?w4 of
                 Continue w5 \<Rightarrow> Continue (maybe_report w5)
               | Break w5 \<Rightarrow> Break w5
               | Raised e w5 \<Rightarrow> Raised e w5)"
          using recv_reply_at_head [OF h4]
          by (cases "recv_reply ?w4")
             (simp_all add: flow_inv_def at_head_good at_head_core [OF core_maybe_report])
        with \<open>\<not> burst cfg\<close> nd ms Inr so u True show ?thesis
          by (simp add: iteration_def)
      qed
    qed
  qed
qed

lemma run_loop_at_head:
  "at_head cfg w \<Longrightarrow> flow_inv cfg (run_loop fuel cfg et w)"
proof (induction fuel arbitrary: w)
  case 0
  then show ?case by (simp add: flow_inv_def)
next
  case (Suc fuel)
  obtain now w1 where pc: "perf_counter w = (now, w1)"
    by (cases "perf_counter w")
  from at_head_perf_counter [OF Suc.prems pc] have h1: "at_head cfg w1" .
  show ?case
  proof (cases "before now et")
    case False
    with pc h1 show ?thesis by (simp add: flow_inv_def)
  next
    case True
    from iteration_at_head [OF h1] have it: "flow_inv cfg (iteration cfg et w1)" .
    show ?thesis
    proof (cases "iteration cfg et w1")
      case (Continue w2)
      with it have "at_head cfg w2" by (simp add: flow_inv_def)
      from Suc.IH [OF this] pc True Continue show ?thesis by simp
    next
      case (Break w2)
      with it pc True show ?thesis by simp
    next
      case (Raised e w2)
      with it pc True show ?thesis by simp
    qed
  qed
qed

lemma run_init_at_head: "at_head cfg (run_init cfg w)"
  by (simp add: run_init_def perf_counter_def at_head_def good_def log_shape_def wants_log_def
      split: option.splits)

lemma run_cases:
  "(fst (run fuel cfg w) = Running \<and> at_head cfg (snd (run fuel cfg w)))
   \<or> (fst (run fuel cfg w) = Exit 0 \<and> at_head cfg (snd (run fuel cfg w)))
   \<or> (fst (run fuel cfg w) = Exit 1 \<and> good cfg (snd (run fuel cfg w)))
   \<or> ((\<exists>e. fst (run fuel cfg w) = Uncaught e) \<and> attempts (snd (run fuel cfg w)) = []
       \<and> send_fail (stats (snd (run fuel cfg w))) = 0 \<and> csv (snd (run fuel cfg w)) = None)"
proof -
  let ?w1 = "run_init cfg w"
  note h = run_init_at_head [of cfg w]
  have at0: "attempts ?w1 = []" "send_fail (stats ?w1) = 0"
    by (simp_all add: run_init_def perf_counter_def)
  let ?et = "end_time_of cfg ?w1"
  from run_loop_at_head [OF h, of fuel ?et]
  have "case run_loop fuel cfg ?et ?w1 of
          Continue w2 \<Rightarrow> at_head cfg w2
        | Break w2 \<Rightarrow> at_head cfg (final_report w2)
        | Raised e w2 \<Rightarrow> good cfg w2"
    by (cases "run_loop fuel cfg ?et ?w1")
       (simp_all add: flow_inv_def at_head_core [OF core_final_report])
  with h at0 show ?thesis
    by (cases "run_loop fuel cfg ?et ?w1")
       (simp_all add: run_def Let_def at_head_good)
qed

lemma log_rows:
  assumes "log_shape atts n (Some rows)"
  shows "\<exists>body. rows = Header # body
           \<and> list_all2 (\<lambda>a row. \<exists>t b note. row = Row (fst a) t b note) atts body"
proof -
  let ?P = "\<lambda>a row. \<exists>t b note. row = Row (fst a) t b note"
  from assms obtain oks fails where rows: "rows = Header # oks @ fails"
    and oks: "list_all2 ok_row (take n atts) oks"
    and fails: "list_all2 fail_row (drop n atts) fails"
    by (auto simp: log_shape_def)
  from oks have "list_all2 ?P (take n atts) oks"
    by (rule list_all2_mono) (auto simp: ok_row_def)
  moreover from fails have "list_all2 ?P (drop n atts) fails"
    by (rule list_all2_mono) (auto simp: fail_row_def)
  ultimately have "list_all2 ?P (take n atts @ drop n atts) (oks @ fails)"
    by (rule list_all2_appendI)
  with rows show ?thesis by simp
qed





lemma good_rows:
  assumes "good cfg w"
  shows "(\<forall>k < length (attempts w).
            fst (attempts w ! k) = k \<and> framed cfg k (snd (attempts w ! k))
            \<and> (\<forall>rows. csv w = Some rows \<longrightarrow> (\<exists>t b note. rows ! Suc k = Row k t b note)))
       \<and> (\<forall>rows. csv w = Some rows \<longrightarrow>
            length rows = Suc (length (attempts w)) \<and> rows ! 0 = Header)"
proof -
  let ?atts = "attempts w"
  from assms have fs: "map fst ?atts = [0..<length ?atts]"
    and fr: "list_all (\<lambda>a. framed cfg (fst a) (snd a)) ?atts"
    and ls: "log_shape ?atts (sent (stats w)) (csv w)"
    by (simp_all add: good_def)
  have idx: "fst (?atts ! k) = k" if "k < length ?atts" for k
  proof -
    from that have "fst (?atts ! k) = map fst ?atts ! k" by simp
    also have "\<dots> = k" unfolding fs using that by (simp del: upt_Suc)
    finally show ?thesis .
  qed
  have frk: "framed cfg k (snd (?atts ! k))" if "k < length ?atts" for k
  proof -
    from fr that have "framed cfg (fst (?atts ! k)) (snd (?atts ! k))"
      by (simp add: list_all_length)
    with idx [OF that] show ?thesis by simp
  qed
  have rows: "length rows = Suc (length ?atts) \<and> rows ! 0 = Header
      \<and> (\<forall>k < length ?atts. \<exists>t b note. rows ! Suc k = Row k t b note)"
    if "csv w = Some rows" for rows
  proof -
    from ls that have "log_shape ?atts (sent (stats w)) (Some rows)" by simp
    from log_rows [OF this] obtain body where r: "rows = Header # body"
      and b: "list_all2 (\<lambda>a row. \<exists>t b note. row = Row (fst a) t b note) ?atts body"
      by blast
    from b have len: "length body = length ?atts" by (simp add: list_all2_lengthD)
    have "\<exists>t b note. rows ! Suc k = Row k t b note" if k: "k < length ?atts" for k
    proof -
      from list_all2_nthD [OF b k]
      obtain t b nt where "body ! k = Row (fst (?atts ! k)) t b nt" by blast
      with idx [OF k] r show ?thesis by simp
    qed
    with r len show ?thesis by simp
  qed
  show ?thesis
  proof (intro conjI allI impI)
    fix k assume k: "k < length ?atts"
    show "fst (?atts ! k) = k" by (rule idx [OF k])
    show "framed cfg k (snd (?atts ! k))" by (rule frk [OF k])
    fix rows assume "csv w = Some rows"
    from rows [OF this] k show "\<exists>t b note. rows ! Suc k = Row k t b note" by blast
  next
    fix rows assume "csv w = Some rows"
    from rows [OF this] show "length rows = Suc (length ?atts)" and "rows ! 0 = Header"
      by blast+
  qed
qed

lemma embeds_seq_full:
  assumes "embeds_seq n k p" and "4 \<le> n"
  shows "\<exists>b0 b1 b2 b3. take 4 p = [b0, b1, b2, b3]
           \<and> uint b0 * 16777216 + uint b1 * 65536 + uint b2 * 256 + uint b3 = k mod 4294967296"
proof -
  from assms(1) obtain b0 b1 b2 b3
    where v: "uint b0 * 16777216 + uint b1 * 65536 + uint b2 * 256 + uint b3 = k mod 4294967296"
      and t: "take 4 p = take (nat n) [b0, b1, b2, b3]"
    unfolding embeds_seq_def by blast
  from assms(2) have "take (nat n) [b0, b1, b2, b3] = [b0, b1, b2, b3]" by simp
  with t v show ?thesis by metis
qed

lemma framed_full:
  assumes "framed cfg k msg" and "4 \<le> payload_len cfg"
  shows "\<exists>b0 b1 b2 b3. take 4 (drop 2 msg) = [b0, b1, b2, b3]
           \<and> uint b0 * 16777216 + uint b1 * 65536 + uint b2 * 256 + uint b3
               = int k mod 4294967296"
proof -
  from assms(1) have "embeds_seq (payload_len cfg) (int k) (drop 2 msg)"
    unfolding framed_def by auto
  from embeds_seq_full [OF this assms(2)] show ?thesis .
qed

lemma run_never_exits_2: "fst (run fuel cfg w) \<noteq> Exit 2"
  using run_cases [of fuel cfg w] by auto

text \<open>
  Claim C9, as amended. In whatever state a run is observed, after any number of passes
  of its loop: the k-th call of \<open>_send_one\<close> (counting from 0) was given the sequence
  number \<open>k\<close> by \<open>run\<close> and a message that the generator framed for the sequence
  number \<open>k\<close>; when the payload length is at least 4, the first four bytes of its
  payload are the big-endian encoding of \<open>k\<close> modulo \<open>2^32\<close>; and the row of that call
  in the log, when there is a log, has \<open>k\<close> in its first column. At the head of the
  loop the counter of \<open>run\<close> is the number of messages sent, and it is the number the
  generator uses next.
\<close>

theorem sequence_counters_agree:
  "(\<forall>k < length (attempts (snd (run fuel cfg w))).
        fst (attempts (snd (run fuel cfg w)) ! k) = k
        \<and> framed cfg k (snd (attempts (snd (run fuel cfg w)) ! k))
        \<and> (4 \<le> payload_len cfg \<longrightarrow>
              (\<exists>b0 b1 b2 b3.
                  take 4 (drop 2 (snd (attempts (snd (run fuel cfg w)) ! k))) = [b0, b1, b2, b3]
                  \<and> uint b0 * 16777216 + uint b1 * 65536 + uint b2 * 256 + uint b3
                      = int k mod 4294967296))
        \<and> (\<forall>rows. csv (snd (run fuel cfg w)) = Some rows \<longrightarrow>
              (\<exists>t b note. rows ! Suc k = Row k t b note)))
   \<and> (\<forall>rows. csv (snd (run fuel cfg w)) = Some rows \<longrightarrow>
         length rows = Suc (length (attempts (snd (run fuel cfg w)))) \<and> rows ! 0 = Header)
   \<and> (fst (run fuel cfg w) = Running \<longrightarrow>
         run_seq (snd (run fuel cfg w)) = length (attempts (snd (run fuel cfg w)))
         \<and> sent (stats (snd (run fuel cfg w))) = length (attempts (snd (run fuel cfg w)))
         \<and> (case gen (snd (run fuel cfg w)) of
               Fresh \<Rightarrow> run_seq (snd (run fuel cfg w)) = 0
             | Yielded r s \<Rightarrow> run_seq (snd (run fuel cfg w)) = Suc s
             | Dead \<Rightarrow> False))"
proof -
  let ?W = "snd (run fuel cfg w)"
  let ?R = "(\<forall>k < length (attempts ?W).
        fst (attempts ?W ! k) = k \<and> framed cfg k (snd (attempts ?W ! k))
        \<and> (\<forall>rows. csv ?W = Some rows \<longrightarrow> (\<exists>t b note. rows ! Suc k = Row k t b note)))
   \<and> (\<forall>rows. csv ?W = Some rows \<longrightarrow>
         length rows = Suc (length (attempts ?W)) \<and> rows ! 0 = Header)"
  have r: ?R
  proof (cases "good cfg ?W")
    case True
    then show ?thesis by (rule good_rows)
  next
    case False
    with run_cases [of fuel cfg w] have "attempts ?W = []" "csv ?W = None"
      by (auto simp: at_head_def)
    then show ?thesis by simp
  qed
  have full: "\<exists>b0 b1 b2 b3.
        take 4 (drop 2 (snd (attempts ?W ! k))) = [b0, b1, b2, b3]
        \<and> uint b0 * 16777216 + uint b1 * 65536 + uint b2 * 256 + uint b3
            = int k mod 4294967296"
    if "k < length (attempts ?W)" and "4 \<le> payload_len cfg" for k
  proof -
    from r that(1) have "framed cfg k (snd (attempts ?W ! k))" by blast
    from framed_full [OF this that(2)] show ?thesis .
  qed
  have h: "run_seq ?W = length (attempts ?W) \<and> sent (stats ?W) = length (attempts ?W)
         \<and> (case gen ?W of Fresh \<Rightarrow> run_seq ?W = 0 | Yielded r s \<Rightarrow> run_seq ?W = Suc s
             | Dead \<Rightarrow> False)"
    if "fst (run fuel cfg w) = Running"
  proof -
    from that run_cases [of fuel cfg w] have "at_head cfg ?W" by auto
    then show ?thesis by (simp add: at_head_def good_def)
  qed
  show ?thesis
  proof (intro conjI allI impI)
    fix k assume k: "k < length (attempts ?W)"
    from r k show "fst (attempts ?W ! k) = k" by blast
    from r k show "framed cfg k (snd (attempts ?W ! k))" by blast
    {
      assume "4 \<le> payload_len cfg"
      from full [OF k this] show "\<exists>b0 b1 b2 b3.
        take 4 (drop 2 (snd (attempts ?W ! k))) = [b0, b1, b2, b3]
        \<and> uint b0 * 16777216 + uint b1 * 65536 + uint b2 * 256 + uint b3
            = int k mod 4294967296" .
    }
    fix rows assume "csv ?W = Some rows"
    with r k show "\<exists>t b note. rows ! Suc k = Row k t b note" by blast
  next
    fix rows assume c: "csv ?W = Some rows"
    with r show "length rows = Suc (length (attempts ?W))" by blast
    from r c show "rows ! 0 = Header" by blast
  next
    assume f: "fst (run fuel cfg w) = Running"
    from h [OF f] show "run_seq ?W = length (attempts ?W)" by blast
    from h [OF f] show "sent (stats ?W) = length (attempts ?W)" by blast
    from h [OF f] show "case gen ?W of Fresh \<Rightarrow> run_seq ?W = 0
        | Yielded r s \<Rightarrow> run_seq ?W = Suc s | Dead \<Rightarrow> False" by blast
  qed
qed

theorem sequence_counters_agree_witness:
  "(2::nat) < length (attempts (snd (run 3 (scenario_cfg\<lparr>payload_len := 4\<rparr>)
                                      (short_world\<lparr>clock := (\<lambda>k. 0)\<rparr>))))
   \<and> 4 \<le> payload_len (scenario_cfg\<lparr>payload_len := 4\<rparr>)
   \<and> attempts (snd (run 3 (scenario_cfg\<lparr>payload_len := 4\<rparr>) (short_world\<lparr>clock := (\<lambda>k. 0)\<rparr>)))
       = [(0, [5, 68, 0, 0, 0, 0]), (1, [5, 68, 0, 0, 0, 1]), (2, [5, 68, 0, 0, 0, 2])]
   \<and> csv (snd (run 3 (scenario_cfg\<lparr>payload_len := 4\<rparr>) (short_world\<lparr>clock := (\<lambda>k. 0)\<rparr>)))
       = Some [Header, Row 0 0 6 ''ok'', Row 1 0 6 ''ok'', Row 2 0 6 ''ok'']
   \<and> fst (run 3 (scenario_cfg\<lparr>payload_len := 4\<rparr>) (short_world\<lparr>clock := (\<lambda>k. 0)\<rparr>)) = Running
   \<and> framed (scenario_cfg\<lparr>payload_len := 4\<rparr>) 2 [5, 68, 0, 0, 0, 2]
   \<and> (\<exists>b0 b1 b2 b3. take 4 (drop 2 [5, 68, 0, 0, 0, 2 :: byte]) = [b0, b1, b2, b3]
         \<and> uint b0 * 16777216 + uint b1 * 65536 + uint b2 * 256 + uint b3
             = int 2 mod 4294967296)
   \<and> run_seq (snd (run 3 (scenario_cfg\<lparr>payload_len := 4\<rparr>) (short_world\<lparr>clock := (\<lambda>k. 0)\<rparr>)))
       = 3"
proof -
  let ?cfg = "scenario_cfg\<lparr>payload_len := 4\<rparr>"
  let ?w = "short_world\<lparr>clock := (\<lambda>k. 0)\<rparr>"
  let ?W = "snd (run 3 ?cfg ?w)"
  have a: "attempts ?W
      = [(0, [5, 68, 0, 0, 0, 0]), (1, [5, 68, 0, 0, 0, 1]), (2, [5, 68, 0, 0, 0, 2])]"
    by code_simp
  have c: "csv ?W = Some [Header, Row 0 0 6 ''ok'', Row 1 0 6 ''ok'', Row 2 0 6 ''ok'']"
    by code_simp
  have f: "fst (run 3 ?cfg ?w) = Running"
    by code_simp
  have p: "4 \<le> payload_len ?cfg" by simp
  from a have h: "(2::nat) < length (attempts ?W)" by simp
  note t = sequence_counters_agree [of 3 ?cfg ?w]
  from t h have "framed ?cfg 2 (snd (attempts ?W ! 2))" by blast
  with a have fr: "framed ?cfg 2 [5, 68, 0, 0, 0, 2]" by simp
  from t h p have "\<exists>b0 b1 b2 b3.
        take 4 (drop 2 (snd (attempts ?W ! 2))) = [b0, b1, b2, b3]
        \<and> uint b0 * 16777216 + uint b1 * 65536 + uint b2 * 256 + uint b3
            = int 2 mod 4294967296" by blast
  with a have em: "\<exists>b0 b1 b2 b3. take 4 (drop 2 [5, 68, 0, 0, 0, 2 :: byte]) = [b0, b1, b2, b3]
         \<and> uint b0 * 16777216 + uint b1 * 65536 + uint b2 * 256 + uint b3
             = int 2 mod 4294967296" by simp
  from t f have "run_seq ?W = length (attempts ?W)" by blast
  with a have "run_seq ?W = 3" by simp
  with h p a c f fr em show ?thesis by blast
qed

text \<open>
  Claim C9 as stated fails: with a payload length of 3 the messages of the sequence
  numbers 0, 1 and 2 are the same frame \<open>[4, 0x44, 0, 0, 0]\<close>, logged as 0, 1 and 2, so
  the payload of message 1 does not hold the number 1; and with a payload length of 4
  the sequence number \<open>2^32\<close> is embedded as 0.
\<close>

theorem short_payload_hides_sequence_counterexample:
  "0 < payload_len scenario_cfg
   \<and> attempts (snd (run 3 scenario_cfg (short_world\<lparr>clock := (\<lambda>k. 0)\<rparr>)))
       = [(0, [4, 68, 0, 0, 0]), (1, [4, 68, 0, 0, 0]), (2, [4, 68, 0, 0, 0])]
   \<and> csv (snd (run 3 scenario_cfg (short_world\<lparr>clock := (\<lambda>k. 0)\<rparr>)))
       = Some [Header, Row 0 0 5 ''ok'', Row 1 0 5 ''ok'', Row 2 0 5 ''ok'']
   \<and> fst (make_payload scenario_cfg 1 some_rng) = fst (make_payload scenario_cfg 0 some_rng)
   \<and> fst (make_payload (scenario_cfg\<lparr>payload_len := 4\<rparr>) 4294967296 some_rng)
       = Inr [0, 0, 0, 0]"
proof -
  let ?W = "snd (run 3 scenario_cfg (short_world\<lparr>clock := (\<lambda>k. 0)\<rparr>))"
  have "0 < payload_len scenario_cfg" by code_simp
  moreover have "attempts ?W
      = [(0, [4, 68, 0, 0, 0]), (1, [4, 68, 0, 0, 0]), (2, [4, 68, 0, 0, 0])]"
    by code_simp
  moreover have "csv ?W = Some [Header, Row 0 0 5 ''ok'', Row 1 0 5 ''ok'', Row 2 0 5 ''ok'']"
    by code_simp
  moreover have "fst (make_payload scenario_cfg 1 some_rng)
      = fst (make_payload scenario_cfg 0 some_rng)"
    by code_simp
  moreover have "fst (make_payload (scenario_cfg\<lparr>payload_len := 4\<rparr>) 4294967296 some_rng)
       = Inr [0, 0, 0, 0]"
    by code_simp
  ultimately show ?thesis by blast
qed

section \<open>Command line: the message type\<close>

lemma and_255: "(x :: int) AND 255 = x mod 256"
proof -
  have "(255 :: int) = mask 8" by (simp add: mask_eq_exp_minus_1)
  then have "x AND 255 = take_bit 8 x" by (simp only: take_bit_eq_mask)
  then show ?thesis by (simp only: take_bit_eq_mod) simp
qed

text \<open>
  Claim C8, as amended. \<open>parse_args\<close> reduces the message type of the command line
  modulo 256 (\<open>a.msg_type & 0xFF\<close>, line 374): the configuration always holds a type in
  0..255, equal to the one given when that was in range; \<open>main\<close> goes on to \<open>run\<close>
  whenever the payload length is in 0..254, whatever the type was, and returns 2 exactly
  when the payload length is outside 0..254; \<open>build_message\<close>
  accepts the type of every parsed configuration, and rejects with ValueError a type
  outside 0..255 that reaches it another way.
\<close>

theorem parse_args_masks_msg_type:
  "msg_type (parse_args a) = a_msg_type a mod 256
   \<and> 0 \<le> msg_type (parse_args a) \<and> msg_type (parse_args a) \<le> 255
   \<and> (0 \<le> a_msg_type a \<and> a_msg_type a \<le> 255 \<longrightarrow> msg_type (parse_args a) = a_msg_type a)
   \<and> (0 \<le> a_payload_len a \<and> a_payload_len a \<le> 254 \<longrightarrow>
        main fuel a w = run fuel (parse_args a) w)
   \<and> (fst (main fuel a w) = Exit 2) = (a_payload_len a < 0 \<or> 254 < a_payload_len a)
   \<and> (length p \<le> 254 \<longrightarrow> (\<exists>frame. build_message (msg_type (parse_args a)) p = Inr frame))
   \<and> (mt < 0 \<or> 255 < mt \<longrightarrow>
        build_message mt p = Inl (ValueError ''msg_type must fit in 1 byte''))"
proof -
  have x: "(fst (main fuel a w) = Exit 2) = (a_payload_len a < 0 \<or> 254 < a_payload_len a)"
    using run_never_exits_2 [of fuel "parse_args a" w]
    by (auto simp: main_def parse_args_def Let_def)
  have m: "msg_type (parse_args a) = a_msg_type a mod 256"
    by (simp add: parse_args_def and_255)
  then have r: "0 \<le> msg_type (parse_args a)" "msg_type (parse_args a) \<le> 255"
    by simp_all
  have "0 \<le> a_msg_type a \<and> a_msg_type a \<le> 255 \<longrightarrow> msg_type (parse_args a) = a_msg_type a"
    using m by simp
  moreover have "0 \<le> a_payload_len a \<and> a_payload_len a \<le> 254 \<longrightarrow>
        main fuel a w = run fuel (parse_args a) w"
    by (simp add: main_def parse_args_def Let_def)
  moreover have "length p \<le> 254 \<longrightarrow>
      (\<exists>frame. build_message (msg_type (parse_args a)) p = Inr frame)"
    using r by (simp add: build_message_ok)
  moreover have "mt < 0 \<or> 255 < mt \<longrightarrow>
        build_message mt p = Inl (ValueError ''msg_type must fit in 1 byte'')"
    by (auto simp: build_message_def)
  ultimately show ?thesis using m r x by blast
qed

theorem parse_args_masks_msg_type_witness:
  "a_msg_type wide_type_args = 324
   \<and> msg_type (parse_args wide_type_args) = 68
   \<and> msg_type (parse_args scenario_args) = a_msg_type scenario_args
   \<and> main 2 wide_type_args short_world = run 2 (parse_args wide_type_args) short_world
   \<and> fst (main 2 wide_type_args short_world) \<noteq> Exit 2
   \<and> fst (main 2 (wide_type_args\<lparr>a_payload_len := 300\<rparr>) short_world) = Exit 2
   \<and> (\<exists>frame. build_message (msg_type (parse_args wide_type_args)) [0, 0, 0] = Inr frame)
   \<and> build_message 324 [0, 0, 0] = Inl (ValueError ''msg_type must fit in 1 byte'')"
proof -
  have h5: "\<not> (a_payload_len wide_type_args < 0 \<or> 254 < a_payload_len wide_type_args)"
    by (simp add: wide_type_args_def scenario_args_def)
  have h6: "a_payload_len (wide_type_args\<lparr>a_payload_len := 300\<rparr>) < 0
      \<or> 254 < a_payload_len (wide_type_args\<lparr>a_payload_len := 300\<rparr>)"
    by simp
  note t3 = parse_args_masks_msg_type [of "wide_type_args\<lparr>a_payload_len := 300\<rparr>" 2 short_world
      "[0, 0, 0]" 324]
  have a: "a_msg_type wide_type_args = 324"
    by (simp add: wide_type_args_def scenario_args_def)
  have h1: "0 \<le> a_payload_len wide_type_args \<and> a_payload_len wide_type_args \<le> 254"
    by (simp add: wide_type_args_def scenario_args_def)
  have h2: "length [0, 0, 0 :: byte] \<le> 254" by simp
  have h3: "(324 :: int) < 0 \<or> 255 < (324 :: int)" by simp
  have h4: "0 \<le> a_msg_type scenario_args \<and> a_msg_type scenario_args \<le> 255"
    by (simp add: scenario_args_def)
  note t1 = parse_args_masks_msg_type [of wide_type_args 2 short_world "[0, 0, 0]" 324]
  note t2 = parse_args_masks_msg_type [of scenario_args 2 short_world "[0, 0, 0]" 324]
  from t1 have "msg_type (parse_args wide_type_args) = a_msg_type wide_type_args mod 256"
    by blast
  with a have "msg_type (parse_args wide_type_args) = 68" by simp
  moreover from t1 h1 h2 h3
  have "main 2 wide_type_args short_world = run 2 (parse_args wide_type_args) short_world"
    and "\<exists>frame. build_message (msg_type (parse_args wide_type_args)) [0, 0, 0] = Inr frame"
    and "build_message 324 [0, 0, 0] = Inl (ValueError ''msg_type must fit in 1 byte'')"
    by blast+
  moreover from t2 h4 have "msg_type (parse_args scenario_args) = a_msg_type scenario_args"
    by blast
  moreover from t1 h5 have "fst (main 2 wide_type_args short_world) \<noteq> Exit 2"
    by blast
  moreover from t3 h6
  have "fst (main 2 (wide_type_args\<lparr>a_payload_len := 300\<rparr>) short_world) = Exit 2"
    by blast
  ultimately show ?thesis using a by blast
qed

text \<open>
  Claim C8 as stated fails: the command line with the message type 0x144 is not
  rejected; the run proceeds with the type 0x44, sends the frame \<open>[4, 0x44, 0, 0, 0]\<close>
  and exits with 0.
\<close>

theorem msg_type_clamped_counterexample:
  "a_msg_type wide_type_args = 324
   \<and> msg_type (parse_args wide_type_args) = 68
   \<and> fst (main 2 wide_type_args short_world) = Exit 0
   \<and> wire (net (snd (main 2 wide_type_args short_world))) = [4, 68, 0, 0, 0]"
proof -
  have "a_msg_type wide_type_args = 324" by code_simp
  moreover have "msg_type (parse_args wide_type_args) = 68" by code_simp
  moreover have "fst (main 2 wide_type_args short_world) = Exit 0" by code_simp
  moreover have "wire (net (snd (main 2 wide_type_args short_world))) = [4, 68, 0, 0, 0]"
    by code_simp
  ultimately show ?thesis by blast
qed

end
